theory Spec2Isabelle
  imports Complex_Main "HOL-Library.AList" "HOL-Library.Multiset" "HOL-Library.Sublist"
begin

section \<open>Strings\<close>

text \<open>
  Study names are modelled as \<^typ>\<open>string\<close>. \<open>trim\<close> strips the ASCII members of the
  ECMAScript white space and line terminator classes, \<open>toLowerCase\<close> folds \<open>A\<close>..\<open>Z\<close>;
  characters outside ASCII are left as they are. The theorems below depend on key equality
  and on substring tests only, not on the case table.
\<close>

definition isWhiteSpace :: "char \<Rightarrow> bool" where
  "isWhiteSpace c =
     (c \<in> set [CHR 0x09, CHR 0x0A, CHR 0x0B, CHR 0x0C, CHR 0x0D, CHR 0x20])"

definition trim :: "string \<Rightarrow> string" where
  "trim s = rev (dropWhile isWhiteSpace (rev (dropWhile isWhiteSpace s)))"

definition lowerChar :: "char \<Rightarrow> char" where
  "lowerChar c =
     (let n = (of_char c :: nat) in if 65 \<le> n \<and> n \<le> 90 then char_of (n + 32) else c)"

definition toLowerCase :: "string \<Rightarrow> string" where
  "toLowerCase s = map lowerChar s"

text \<open>\<open>s.includes(q)\<close>: \<open>q\<close> occurs in \<open>s\<close> as a contiguous block.\<close>

fun includesStr :: "string \<Rightarrow> string \<Rightarrow> bool" where
  "includesStr [] q = (q = [])"
| "includesStr (c # cs) q = (prefix q (c # cs) \<or> includesStr cs q)"

text \<open>\<open>keyOf\<close>: \<open>studyName.trim().toLowerCase()\<close>.\<close>

definition keyOf :: "string \<Rightarrow> string" where
  "keyOf studyName = toLowerCase (trim studyName)"


section \<open>Data model of the study-schema cache\<close>

record StudyInputInformation =
  input_id :: string
  input_name :: string
  input_localizedName :: string
  input_type :: string

record StudySchema =
  schema_name :: string
  schema_inputs :: "StudyInputInformation list"

datatype CacheEntry = CacheOk StudySchema | CacheErr string

text \<open>
  What the widget's accessor hands back is untyped. The result as a whole is an array or
  something that is not an array. An element of the array is an object, or it is \<open>null\<close> or
  \<open>undefined\<close>; a field of an object is a string, or it is \<open>undefined\<close> (the property is
  missing) or \<open>null\<close>.
\<close>

datatype jsfield = JUndefined | JNull | JString string

record raw_input =
  raw_id :: jsfield
  raw_name :: jsfield
  raw_localizedName :: jsfield
  raw_type :: jsfield

datatype raw_element = ElemObject raw_input | ElemNull | ElemUndefined

datatype raw_result = RawUndefined | RawNull | RawOther | RawArray "raw_element list"

text \<open>A call into the widget either returns or throws; a throw is kept as its message
  (\<open>e instanceof Error ? e.message : String(e)\<close>).\<close>

datatype 'a completion = Returns 'a | Throws string

record chart_any =
  chart_getStudyInputs :: "(string \<Rightarrow> raw_result completion) option"

record widget_any =
  widget_getStudyInputs :: "(string \<Rightarrow> raw_result completion) option"
  widget_activeChart :: "(chart_any option completion) option"

text \<open>The three globals \<open>getWidget\<close> reads; \<open>TradingView\<close> is the namespace object, whose
  \<open>widgetInstance\<close> may itself be missing.\<close>

record window_globals =
  tvWidget :: "widget_any option"
  widget :: "widget_any option"
  TradingView :: "widget_any option option"

record env =
  ready :: bool
  window :: window_globals

datatype widget_event =
    ProbeWidget
  | CallGetStudyInputs string
  | CallActiveChart
  | CallChartGetStudyInputs string

text \<open>The module state: the cache, a JavaScript \<open>Map\<close> (insertion ordered, one entry per
  key), and the sequence of accesses made to the widget so far.\<close>

record studies_state =
  cache :: "(string \<times> CacheEntry) list"
  trace :: "widget_event list"

text \<open>What the caller of an async function sees: its promise fulfilled or rejected, or left
  waiting for ever on a readiness gate that is never resolved.\<close>

datatype 'a outcome = Fulfilled 'a | Rejected string | Pending


section \<open>Operations of the study-schema cache\<close>

definition getWidget :: "window_globals \<Rightarrow> widget_any option" where
  "getWidget win =
     (case tvWidget win of
        Some w \<Rightarrow> Some w
      | None \<Rightarrow>
          (case widget win of
             Some w \<Rightarrow> Some w
           | None \<Rightarrow>
               (case TradingView win of
                  Some (Some w) \<Rightarrow> Some w
                | _ \<Rightarrow> None)))"

text \<open>\<open>String(v)\<close> and \<open>v ?? d\<close> on field values.\<close>

fun String_of :: "jsfield \<Rightarrow> string" where
  "String_of JUndefined = ''undefined''"
| "String_of JNull = ''null''"
| "String_of (JString s) = s"

fun nullish :: "jsfield \<Rightarrow> jsfield \<Rightarrow> jsfield" where
  "nullish JUndefined d = d"
| "nullish JNull d = d"
| "nullish (JString s) d = JString s"

text \<open>
  The callback of \<open>inputs.map\<close>. Reading \<open>i.id\<close> of an element that is \<open>null\<close> or
  \<open>undefined\<close> throws a \<open>TypeError\<close>; the message is the one of the V8 engine.
\<close>

definition cannotRead :: "string \<Rightarrow> string" where
  "cannotRead what =
     ''Cannot read properties of '' @ what @ '' (reading '' @ [CHR 0x27] @ ''id'' @ [CHR 0x27] @ '')''"

fun normalizeInput :: "raw_element \<Rightarrow> StudyInputInformation completion" where
  "normalizeInput (ElemObject i) =
     Returns
       \<lparr> input_id = String_of (raw_id i),
         input_name = String_of (nullish (raw_name i) (JString [])),
         input_localizedName =
           String_of (nullish (raw_localizedName i) (nullish (raw_name i) (JString []))),
         input_type = String_of (nullish (raw_type i) (JString [])) \<rparr>"
| "normalizeInput ElemNull = Throws (cannotRead ''null'')"
| "normalizeInput ElemUndefined = Throws (cannotRead ''undefined'')"

text \<open>\<open>inputs.map(...)\<close>: the elements in order; the first throw ends the whole call.\<close>

fun mapInputs :: "raw_element list \<Rightarrow> StudyInputInformation list completion" where
  "mapInputs [] = Returns []"
| "mapInputs (x # xs) =
     (case normalizeInput x of
        Throws m \<Rightarrow> Throws m
      | Returns y \<Rightarrow>
          (case mapInputs xs of
             Throws m \<Rightarrow> Throws m
           | Returns ys \<Rightarrow> Returns (y # ys)))"

text \<open>\<open>if (!Array.isArray(inputs)) inputs = []\<close>, then the \<open>map\<close>.\<close>

definition normalizeInputs :: "raw_result \<Rightarrow> StudyInputInformation list completion" where
  "normalizeInputs r = (case r of RawArray xs \<Rightarrow> mapInputs xs | _ \<Rightarrow> Returns [])"

definition logEvents :: "widget_event list \<Rightarrow> studies_state \<Rightarrow> studies_state" where
  "logEvents es st = st\<lparr>trace := trace st @ es\<rparr>"

definition cacheSet :: "string \<Rightarrow> CacheEntry \<Rightarrow> studies_state \<Rightarrow> studies_state" where
  "cacheSet k e st = st\<lparr>cache := AList.update k e (cache st)\<rparr>"

text \<open>The \<open>try\<close> block of \<open>getStudySchema\<close>: which accessor is called, if any.\<close>

definition fetchInputs ::
  "widget_any \<Rightarrow> string \<Rightarrow> studies_state \<Rightarrow> raw_result completion \<times> studies_state" where
  "fetchInputs w studyName st =
     (case widget_getStudyInputs w of
        Some f \<Rightarrow> (f studyName, logEvents [CallGetStudyInputs studyName] st)
      | None \<Rightarrow>
          (case widget_activeChart w of
             None \<Rightarrow> (Returns RawUndefined, st)
           | Some (Throws m) \<Rightarrow> (Throws m, logEvents [CallActiveChart] st)
           | Some (Returns None) \<Rightarrow> (Returns RawUndefined, logEvents [CallActiveChart] st)
           | Some (Returns (Some ch)) \<Rightarrow>
               (case chart_getStudyInputs ch of
                  None \<Rightarrow> (Returns RawUndefined, logEvents [CallActiveChart] st)
                | Some g \<Rightarrow>
                    (g studyName,
                     logEvents [CallActiveChart, CallActiveChart,
                                CallChartGetStudyInputs studyName] st))))"

definition failedMessage :: "string \<Rightarrow> string \<Rightarrow> string" where
  "failedMessage studyName m =
     ''getStudyInputs failed for '' @ [CHR 0x22] @ studyName @ [CHR 0x22] @ '': '' @ m"

text \<open>\<open>getStudySchema\<close> up to its \<open>await ready\<close>: the two cache hits settle the promise at
  once, a miss goes on to the gate.\<close>

definition getStudySchema_cached ::
  "studies_state \<Rightarrow> string \<Rightarrow> StudySchema completion option" where
  "getStudySchema_cached st studyName =
     (case map_of (cache st) (keyOf studyName) of
        Some (CacheOk schema) \<Rightarrow> Some (Returns schema)
      | Some (CacheErr err) \<Rightarrow> Some (Throws err)
      | None \<Rightarrow> None)"

text \<open>
  \<open>getStudySchema\<close> from the gate on; it runs without another suspension. The two
  failures inside the function are written to the cache before they are thrown. The
  normalization comes after the \<open>try\<close> block: what it throws leaves the function as it
  is, and nothing is written to the cache.
\<close>

definition getStudySchema_fetch ::
  "env \<Rightarrow> studies_state \<Rightarrow> string \<Rightarrow> StudySchema completion \<times> studies_state" where
  "getStudySchema_fetch e st studyName =
     (let k = keyOf studyName; st1 = logEvents [ProbeWidget] st in
      case getWidget (window e) of
        None \<Rightarrow>
          (let err = ''TradingView widget not available''
           in (Throws err, cacheSet k (CacheErr err) st1))
      | Some w \<Rightarrow>
          (case fetchInputs w studyName st1 of
             (Throws m, st2) \<Rightarrow>
               (let err = failedMessage studyName m
                in (Throws err, cacheSet k (CacheErr err) st2))
           | (Returns raw, st2) \<Rightarrow>
               (case normalizeInputs raw of
                  Throws m \<Rightarrow> (Throws m, st2)
                | Returns normalized \<Rightarrow>
                    (let schema = \<lparr> schema_name = studyName, schema_inputs = normalized \<rparr>
                     in (Returns schema, cacheSet k (CacheOk schema) st2)))))"

fun settled :: "'a completion \<Rightarrow> 'a outcome" where
  "settled (Returns x) = Fulfilled x"
| "settled (Throws m) = Rejected m"

definition getStudySchema ::
  "env \<Rightarrow> studies_state \<Rightarrow> string \<Rightarrow> StudySchema outcome \<times> studies_state" where
  "getStudySchema e st studyName =
     (case getStudySchema_cached st studyName of
        Some r \<Rightarrow> (settled r, st)
      | None \<Rightarrow>
          if ready e
          then (case getStudySchema_fetch e st studyName of (r, st') \<Rightarrow> (settled r, st'))
          else (Pending, st))"

definition hasStudy :: "studies_state \<Rightarrow> string \<Rightarrow> bool" where
  "hasStudy st studyName =
     (case map_of (cache st) (keyOf studyName) of
        Some (CacheOk schema) \<Rightarrow> True
      | _ \<Rightarrow> False)"

definition peekStudySchema :: "studies_state \<Rightarrow> string \<Rightarrow> StudySchema option" where
  "peekStudySchema st studyName =
     (case map_of (cache st) (keyOf studyName) of
        Some (CacheOk schema) \<Rightarrow> Some schema
      | _ \<Rightarrow> None)"

text \<open>\<open>clearStudyCache(studyName?)\<close>: the argument may be left out, and \<open>!studyName\<close> also
  holds for the empty string.\<close>

definition clearStudyCache :: "string option \<Rightarrow> studies_state \<Rightarrow> studies_state" where
  "clearStudyCache studyName st =
     (case studyName of
        None \<Rightarrow> st\<lparr>cache := []\<rparr>
      | Some s \<Rightarrow>
          if s = [] then st\<lparr>cache := []\<rparr>
          else st\<lparr>cache := AList.delete (keyOf s) (cache st)\<rparr>)"


text \<open>\<open>searchCachedInputs\<close>: the three loops, each pushing onto \<open>hits\<close>.\<close>

record hit =
  hit_study :: string
  hit_input :: StudyInputInformation

definition inputMatches :: "string \<Rightarrow> StudyInputInformation \<Rightarrow> bool" where
  "inputMatches q input =
     (includesStr (toLowerCase (input_name input)) q
      \<or> includesStr (toLowerCase (input_localizedName input)) q
      \<or> includesStr (toLowerCase (input_id input)) q)"

fun pushAll :: "string \<Rightarrow> StudyInputInformation list \<Rightarrow> hit list \<Rightarrow> hit list" where
  "pushAll name [] hits = hits"
| "pushAll name (input # rest) hits =
     pushAll name rest (hits @ [\<lparr> hit_study = name, hit_input = input \<rparr>])"

fun scanInputs :: "string \<Rightarrow> string \<Rightarrow> StudyInputInformation list \<Rightarrow> hit list \<Rightarrow> hit list" where
  "scanInputs q name [] hits = hits"
| "scanInputs q name (input # rest) hits =
     scanInputs q name rest
       (if inputMatches q input then hits @ [\<lparr> hit_study = name, hit_input = input \<rparr>]
        else hits)"

fun scanCache :: "string \<Rightarrow> (string \<times> CacheEntry) list \<Rightarrow> hit list \<Rightarrow> hit list" where
  "scanCache q [] hits = hits"
| "scanCache q ((k, CacheErr err) # rest) hits = scanCache q rest hits"
| "scanCache q ((k, CacheOk schema) # rest) hits =
     (if includesStr (toLowerCase (schema_name schema)) q
      then scanCache q rest (pushAll (schema_name schema) (schema_inputs schema) hits)
      else scanCache q rest (scanInputs q (schema_name schema) (schema_inputs schema) hits))"

definition searchCachedInputs :: "studies_state \<Rightarrow> string \<Rightarrow> hit list" where
  "searchCachedInputs st query = scanCache (toLowerCase (trim query)) (cache st) []"


text \<open>
  The search as the specification describes it, for comparison with the loops above: an
  error entry yields nothing; a successful entry yields, in order, those of its inputs for
  which the study name contains the query or the input's name, localized name or id does,
  all compared in lower case. And the list of all inputs of all successful entries.
\<close>

definition spec_entryHits :: "string \<Rightarrow> CacheEntry \<Rightarrow> hit list" where
  "spec_entryHits q entry =
     (case entry of
        CacheErr err \<Rightarrow> []
      | CacheOk schema \<Rightarrow>
          map (\<lambda>input. \<lparr> hit_study = schema_name schema, hit_input = input \<rparr>)
            (filter (\<lambda>input. includesStr (toLowerCase (schema_name schema)) q
                              \<or> inputMatches q input)
               (schema_inputs schema)))"

definition spec_searchCachedInputs :: "studies_state \<Rightarrow> string \<Rightarrow> hit list" where
  "spec_searchCachedInputs st query =
     concat (map (\<lambda>(k, entry). spec_entryHits (toLowerCase (trim query)) entry) (cache st))"

definition spec_allCachedInputs :: "studies_state \<Rightarrow> hit list" where
  "spec_allCachedInputs st =
     concat (map (\<lambda>(k, entry).
        case entry of
          CacheErr err \<Rightarrow> []
        | CacheOk schema \<Rightarrow>
            map (\<lambda>input. \<lparr> hit_study = schema_name schema, hit_input = input \<rparr>)
              (schema_inputs schema)) (cache st))"

definition isOk :: "CacheEntry \<Rightarrow> bool" where
  "isOk entry = (case entry of CacheOk schema \<Rightarrow> True | CacheErr err \<Rightarrow> False)"


section \<open>Bulk prefetch\<close>

text \<open>
  A JavaScript number is a finite value, \<open>NaN\<close> or one of the two infinities; the finite
  values are taken from the rationals, which hold every double.
\<close>

datatype jsnumber = Num rat | NaN | PosInfinity | NegInfinity

text \<open>
  The options: \<open>concurrency\<close> is a number when given, \<open>onProgress\<close> a callback of the
  caller, which returns or throws. The summary is the object the function returns; its three
  fields are the locals \<open>total\<close>, \<open>success\<close> and \<open>failed\<close> of the source.
\<close>

record prefetch_opts =
  concurrency :: "jsnumber option"
  onProgress :: "(nat \<Rightarrow> nat \<Rightarrow> string \<Rightarrow> unit completion) option"

record failure =
  failure_name :: string
  failure_error :: string

record summary =
  total :: nat
  success :: "string list"
  failed :: "failure list"

text \<open>
  A worker is an async function, so it runs from one \<open>await\<close> to the next without
  interruption and is then suspended. Its suspension points: inside \<open>getStudySchema\<close> at
  \<open>await ready\<close> (the name in hand is kept), and at \<open>await getStudySchema(current)\<close> once
  that promise has settled. A worker whose loop has ended is finished; one whose
  \<open>onProgress\<close> call threw has rejected.
\<close>

datatype worker =
    AwaitReady string
  | AwaitSchema string "StudySchema completion"
  | Finished
  | Crashed string

record prefetch_config =
  idx :: nat
  doneCount :: nat
  result :: summary
  workers :: "worker list"
  module :: studies_state
  progressCalls :: "(nat \<times> nat \<times> string) list"

text \<open>\<open>Math.max\<close> and \<open>Math.min\<close> of two numbers: \<open>NaN\<close> if either is \<open>NaN\<close>.\<close>

fun Math_max :: "jsnumber \<Rightarrow> jsnumber \<Rightarrow> jsnumber" where
  "Math_max NaN y = NaN"
| "Math_max x NaN = NaN"
| "Math_max PosInfinity y = PosInfinity"
| "Math_max x PosInfinity = PosInfinity"
| "Math_max NegInfinity y = y"
| "Math_max x NegInfinity = x"
| "Math_max (Num a) (Num b) = Num (max a b)"

fun Math_min :: "jsnumber \<Rightarrow> jsnumber \<Rightarrow> jsnumber" where
  "Math_min NaN y = NaN"
| "Math_min x NaN = NaN"
| "Math_min NegInfinity y = NegInfinity"
| "Math_min x NegInfinity = NegInfinity"
| "Math_min PosInfinity y = y"
| "Math_min x PosInfinity = x"
| "Math_min (Num a) (Num b) = Num (min a b)"

text \<open>
  \<open>ToLength\<close>, which \<open>Array.from\<close> applies to the \<open>length\<close> it is given: \<open>NaN\<close> counts as
  0, a fraction is cut off, and the result lies between 0 and \<open>2^53 - 1\<close>.
\<close>

fun ToLength :: "jsnumber \<Rightarrow> nat" where
  "ToLength (Num q) = (if q \<le> 0 then 0 else min (nat \<lfloor>q\<rfloor>) (2 ^ 53 - 1))"
| "ToLength NaN = 0"
| "ToLength PosInfinity = 2 ^ 53 - 1"
| "ToLength NegInfinity = 0"

text \<open>\<open>Math.max(1, opts.concurrency ?? 8)\<close>, and the number of workers
  \<open>Array.from({ length: Math.min(concurrency, total) }, worker)\<close> starts.\<close>

definition effectiveConcurrency :: "prefetch_opts \<Rightarrow> jsnumber" where
  "effectiveConcurrency opts =
     Math_max (Num 1) (case concurrency opts of None \<Rightarrow> Num 8 | Some c \<Rightarrow> c)"

definition workerCount :: "prefetch_opts \<Rightarrow> nat \<Rightarrow> nat" where
  "workerCount opts n = ToLength (Math_min (effectiveConcurrency opts) (Num (of_nat n)))"

text \<open>From the loop head to the next suspension: take the next name, enter
  \<open>getStudySchema\<close>, stop at its gate or at its settled promise.\<close>

definition workerLoop :: "string list \<Rightarrow> prefetch_config \<Rightarrow> worker \<times> prefetch_config" where
  "workerLoop studies c =
     (if idx c < total (result c)
      then (let current = studies ! idx c; c1 = c\<lparr>idx := idx c + 1\<rparr> in
            case getStudySchema_cached (module c1) current of
              Some r \<Rightarrow> (AwaitSchema current r, c1)
            | None \<Rightarrow> (AwaitReady current, c1))
      else (Finished, c))"

text \<open>The rest of the loop body after the \<open>await\<close>: \<open>try\<close>/\<open>catch\<close> record the item,
  \<open>finally\<close> counts it and reports it, and the loop goes round.\<close>

definition workerSettle ::
  "prefetch_opts \<Rightarrow> string list \<Rightarrow> string \<Rightarrow> StudySchema completion \<Rightarrow> prefetch_config
     \<Rightarrow> worker \<times> prefetch_config" where
  "workerSettle opts studies current r c =
     (let res = result c;
          c1 = (case r of
                  Returns schema \<Rightarrow> c\<lparr>result := res\<lparr>success := success res @ [current]\<rparr>\<rparr>
                | Throws m \<Rightarrow>
                    c\<lparr>result := res\<lparr>failed := failed res @
                                   [\<lparr> failure_name = current, failure_error = m \<rparr>]\<rparr>\<rparr>);
          c2 = c1\<lparr>doneCount := doneCount c1 + 1\<rparr>
      in case onProgress opts of
           None \<Rightarrow> workerLoop studies c2
         | Some cb \<Rightarrow>
             (let c3 = c2\<lparr>progressCalls := progressCalls c2 @
                                  [(doneCount c2, total (result c2), current)]\<rparr>
              in case cb (doneCount c2) (total (result c2)) current of
                   Returns u \<Rightarrow> workerLoop studies c3
                 | Throws m \<Rightarrow> (Crashed m, c3)))"

text \<open>Resuming worker \<open>i\<close> at its suspension point.\<close>

definition resumeWorker ::
  "env \<Rightarrow> prefetch_opts \<Rightarrow> string list \<Rightarrow> nat \<Rightarrow> prefetch_config \<Rightarrow> prefetch_config" where
  "resumeWorker e opts studies i c =
     (case workers c ! i of
        AwaitReady current \<Rightarrow>
          (case getStudySchema_fetch e (module c) current of
             (r, m') \<Rightarrow> c\<lparr>module := m', workers := (workers c)[i := AwaitSchema current r]\<rparr>)
      | AwaitSchema current r \<Rightarrow>
          (case workerSettle opts studies current r c of
             (w, c') \<Rightarrow> c'\<lparr>workers := (workers c')[i := w]\<rparr>)
      | Finished \<Rightarrow> c
      | Crashed m \<Rightarrow> c)"

text \<open>\<open>Array.from({ length: n }, worker)\<close>: each worker is started in turn and runs to its
  first suspension before the next one starts.\<close>

fun spawn :: "string list \<Rightarrow> nat \<Rightarrow> prefetch_config \<Rightarrow> prefetch_config" where
  "spawn studies 0 c = c"
| "spawn studies (Suc n) c =
     (case workerLoop studies c of
        (w, c') \<Rightarrow> spawn studies n (c'\<lparr>workers := workers c' @ [w]\<rparr>))"

definition canResume :: "env \<Rightarrow> worker \<Rightarrow> bool" where
  "canResume e w =
     (case w of
        AwaitReady current \<Rightarrow> ready e
      | AwaitSchema current r \<Rightarrow> True
      | Finished \<Rightarrow> False
      | Crashed m \<Rightarrow> False)"

definition runnable :: "env \<Rightarrow> prefetch_config \<Rightarrow> nat list" where
  "runnable e c = filter (\<lambda>i. canResume e (workers c ! i)) [0..<length (workers c)]"

fun crashed :: "worker list \<Rightarrow> string option" where
  "crashed [] = None"
| "crashed (Crashed m # ws) = Some m"
| "crashed (w # ws) = crashed ws"

text \<open>
  \<open>await Promise.all(...)\<close>. The event loop resumes one suspended worker at a time; which
  one is not fixed here: the schedule is a list of choices among the workers that can be
  resumed, so every order the event loop could take is some schedule. The run ends when a
  worker has rejected (\<open>Promise.all\<close> rejects), when all have finished (the summary is
  returned), or when every unfinished worker waits on an unresolved gate (the call never
  returns). \<open>None\<close> means the schedule was too short to reach the end.
\<close>

fun run ::
  "env \<Rightarrow> prefetch_opts \<Rightarrow> string list \<Rightarrow> nat list \<Rightarrow> prefetch_config
     \<Rightarrow> (summary outcome \<times> prefetch_config) option" where
  "run e opts studies [] c =
     (case crashed (workers c) of
        Some m \<Rightarrow> Some (Rejected m, c)
      | None \<Rightarrow>
          if list_all (\<lambda>w. w = Finished) (workers c) then Some (Fulfilled (result c), c)
          else if runnable e c = [] then Some (Pending, c)
          else None)"
| "run e opts studies (n # sched) c =
     (case crashed (workers c) of
        Some m \<Rightarrow> Some (Rejected m, c)
      | None \<Rightarrow>
          if list_all (\<lambda>w. w = Finished) (workers c) then Some (Fulfilled (result c), c)
          else if runnable e c = [] then Some (Pending, c)
          else run e opts studies sched
                 (resumeWorker e opts studies
                    (runnable e c ! (n mod length (runnable e c))) c))"

definition prefetchStart ::
  "studies_state \<Rightarrow> string list \<Rightarrow> prefetch_opts \<Rightarrow> prefetch_config" where
  "prefetchStart st studies opts =
     spawn studies (workerCount opts (length studies))
       \<lparr> idx = 0, doneCount = 0,
         result = \<lparr> total = length studies, success = [], failed = [] \<rparr>,
         workers = [], module = st, progressCalls = [] \<rparr>"

definition prefetchStudySchemas ::
  "env \<Rightarrow> nat list \<Rightarrow> studies_state \<Rightarrow> string list \<Rightarrow> prefetch_opts
     \<Rightarrow> (summary outcome \<times> prefetch_config) option" where
  "prefetchStudySchemas e sched st studies opts =
     run e opts studies sched (prefetchStart st studies opts)"


section \<open>Applied-entity tables of the bridge\<close>

text \<open>
  A handle is whatever the widget gave back on creation; the bridge only stores it and hands
  it to \<open>removeEntity\<close>. The state holds the chart reference, the four tables (JavaScript
  \<open>Map\<close>s, in insertion order), and what the bridge has done to the outside: the handles
  passed to \<open>removeEntity\<close> and the messages written with \<open>console.error\<close>.
\<close>

type_synonym entity = string

record chart_api =
  removeEntity :: "entity \<Rightarrow> unit completion"

record bridge_state =
  chartRef :: "chart_api option"
  appliedIndicators :: "(string \<times> entity) list"
  appliedPatterns :: "(string \<times> entity) list"
  appliedAnnotations :: "(string \<times> entity) list"
  appliedPriceTargets :: "(string \<times> entity) list"
  removeEntityCalls :: "entity list"
  consoleErrors :: "string list"

text \<open>The \<open>for ... of\<close> loop shared by the three clear-all functions; \<open>what\<close> is the word
  in the logged message.\<close>

fun removeEach ::
  "chart_api \<Rightarrow> string \<Rightarrow> (string \<times> entity) list \<Rightarrow> bridge_state \<Rightarrow> bridge_state" where
  "removeEach ch what [] b = b"
| "removeEach ch what ((name, h) # rest) b =
     (let b1 = b\<lparr>removeEntityCalls := removeEntityCalls b @ [h]\<rparr> in
      case removeEntity ch h of
        Returns u \<Rightarrow> removeEach ch what rest b1
      | Throws m \<Rightarrow>
          removeEach ch what rest
            (b1\<lparr>consoleErrors := consoleErrors b1 @
                    [''Failed to remove '' @ what @ '' '' @ name @ '':'']\<rparr>))"

definition clearAllIndicators :: "env \<Rightarrow> bridge_state \<Rightarrow> unit outcome \<times> bridge_state" where
  "clearAllIndicators e b =
     (if \<not> ready e then (Pending, b)
      else case chartRef b of
        None \<Rightarrow> (Fulfilled (), b)
      | Some ch \<Rightarrow>
          (Fulfilled (),
           (removeEach ch ''indicator'' (appliedIndicators b) b)\<lparr>appliedIndicators := []\<rparr>))"

definition clearAllPatterns :: "env \<Rightarrow> bridge_state \<Rightarrow> unit outcome \<times> bridge_state" where
  "clearAllPatterns e b =
     (if \<not> ready e then (Pending, b)
      else case chartRef b of
        None \<Rightarrow> (Fulfilled (), b)
      | Some ch \<Rightarrow>
          (Fulfilled (),
           (removeEach ch ''pattern'' (appliedPatterns b) b)\<lparr>appliedPatterns := []\<rparr>))"

definition clearAllPriceTargets :: "env \<Rightarrow> bridge_state \<Rightarrow> unit outcome \<times> bridge_state" where
  "clearAllPriceTargets e b =
     (if \<not> ready e then (Pending, b)
      else case chartRef b of
        None \<Rightarrow> (Fulfilled (), b)
      | Some ch \<Rightarrow>
          (Fulfilled (),
           (removeEach ch ''price target'' (appliedPriceTargets b) b)\<lparr>appliedPriceTargets := []\<rparr>))"


section \<open>Bookkeeping of a prefetch run\<close>

text \<open>
  Notions for reasoning about a run: the name a suspended worker has in hand, the names
  recorded so far (successes and failures), the work left (three steps at most for each
  name not yet taken, two or one for a name in hand), a progress callback that never
  throws, and the invariant of a run: every name taken so far is either recorded or in the
  hand of exactly one worker, a worker has only finished when no name is left, and no
  worker has rejected.
\<close>

fun pendingNames :: "worker \<Rightarrow> string list" where
  "pendingNames (AwaitReady current) = [current]"
| "pendingNames (AwaitSchema current r) = [current]"
| "pendingNames Finished = []"
| "pendingNames (Crashed m) = []"

fun weight :: "worker \<Rightarrow> nat" where
  "weight (AwaitReady current) = 2"
| "weight (AwaitSchema current r) = 1"
| "weight Finished = 0"
| "weight (Crashed m) = 0"

definition inFlight :: "worker list \<Rightarrow> string list" where
  "inFlight ws = concat (map pendingNames ws)"

definition recorded :: "summary \<Rightarrow> string list" where
  "recorded s = success s @ map failure_name (failed s)"

definition remaining :: "string list \<Rightarrow> prefetch_config \<Rightarrow> nat" where
  "remaining studies c = 3 * (length studies - idx c) + sum_list (map weight (workers c))"

definition quietProgress :: "prefetch_opts \<Rightarrow> bool" where
  "quietProgress opts =
     (case onProgress opts of
        None \<Rightarrow> True
      | Some cb \<Rightarrow> \<forall>d t name. cb d t name = Returns ())"

definition prefetch_inv :: "string list \<Rightarrow> prefetch_config \<Rightarrow> bool" where
  "prefetch_inv studies c =
     (total (result c) = length studies
      \<and> idx c \<le> length studies
      \<and> mset (recorded (result c)) + mset (inFlight (workers c)) = mset (take (idx c) studies)
      \<and> doneCount c = length (recorded (result c))
      \<and> (Finished \<in> set (workers c) \<longrightarrow> idx c = length studies)
      \<and> (\<forall>m. Crashed m \<notin> set (workers c)))"


text \<open>
  Where a recorded outcome comes from. What fetching a name yields does not depend on the
  state, only on the widget. An outcome recorded for a name is accounted for when it is the
  entry that was cached for the name's key before the call, or what fetching one of the
  given names with that key yields. The second invariant of a run: every cache entry, every
  settled promise a worker waits on and every recorded item is accounted for.
\<close>

fun entryOf :: "StudySchema completion \<Rightarrow> CacheEntry" where
  "entryOf (Returns schema) = CacheOk schema"
| "entryOf (Throws m) = CacheErr m"

definition fetched :: "env \<Rightarrow> string \<Rightarrow> StudySchema completion" where
  "fetched e studyName = fst (getStudySchema_fetch e \<lparr> cache = [], trace = [] \<rparr> studyName)"

definition accounted ::
  "env \<Rightarrow> studies_state \<Rightarrow> string list \<Rightarrow> string \<Rightarrow> StudySchema completion \<Rightarrow> bool" where
  "accounted e st0 studies n r =
     (map_of (cache st0) (keyOf n) = Some (entryOf r)
      \<or> (\<exists>n' \<in> set studies. keyOf n' = keyOf n \<and> fetched e n' = r))"

definition prefetch_prov ::
  "env \<Rightarrow> studies_state \<Rightarrow> string list \<Rightarrow> prefetch_config \<Rightarrow> bool" where
  "prefetch_prov e st0 studies c =
     ((\<forall>k entry. map_of (cache (module c)) k = Some entry \<longrightarrow>
          map_of (cache st0) k = Some entry
        \<or> (\<exists>n' \<in> set studies. keyOf n' = k \<and> entryOf (fetched e n') = entry))
      \<and> (\<forall>n. AwaitReady n \<in> set (workers c) \<longrightarrow> n \<in> set studies)
      \<and> (\<forall>n r. AwaitSchema n r \<in> set (workers c) \<longrightarrow> accounted e st0 studies n r)
      \<and> (\<forall>n \<in> set (success (result c)). \<exists>schema. accounted e st0 studies n (Returns schema))
      \<and> (\<forall>f \<in> set (failed (result c)).
            accounted e st0 studies (failure_name f) (Throws (failure_error f))))"


section \<open>Values for the concrete runs\<close>

definition emptyState :: studies_state where
  "emptyState = \<lparr> cache = [], trace = [] \<rparr>"

definition lengthInput :: raw_input where
  "lengthInput = \<lparr> raw_id = JString ''length'', raw_name = JString ''Length'',
                   raw_localizedName = JUndefined, raw_type = JString ''integer'' \<rparr>"

definition lengthInfo :: StudyInputInformation where
  "lengthInfo = \<lparr> input_id = ''length'', input_name = ''Length'',
                  input_localizedName = ''Length'', input_type = ''integer'' \<rparr>"

text \<open>A widget that knows every study but \<open>BADSTUDY\<close>, one without any accessor, one
  whose elements come without an \<open>id\<close>, and one whose array holds \<open>null\<close>.\<close>

definition sampleAccessor :: "string \<Rightarrow> raw_result completion" where
  "sampleAccessor studyName =
     (if studyName = ''BADSTUDY'' then Throws ''unknown study''
      else Returns (RawArray [ElemObject lengthInput]))"

definition sampleWidget :: widget_any where
  "sampleWidget = \<lparr> widget_getStudyInputs = Some sampleAccessor, widget_activeChart = None \<rparr>"

definition bareWidget :: widget_any where
  "bareWidget = \<lparr> widget_getStudyInputs = None, widget_activeChart = None \<rparr>"

definition noIdWidget :: widget_any where
  "noIdWidget =
     \<lparr> widget_getStudyInputs =
         Some (\<lambda>studyName. Returns (RawArray [ElemObject (lengthInput\<lparr>raw_id := JUndefined\<rparr>)])),
       widget_activeChart = None \<rparr>"

definition nullElementWidget :: widget_any where
  "nullElementWidget =
     \<lparr> widget_getStudyInputs = Some (\<lambda>studyName. Returns (RawArray [ElemNull])),
       widget_activeChart = None \<rparr>"

definition readyEnv :: "widget_any option \<Rightarrow> env" where
  "readyEnv w = \<lparr> ready = True, window = \<lparr> tvWidget = w, widget = None, TradingView = None \<rparr> \<rparr>"

definition rsiSchema :: StudySchema where
  "rsiSchema = \<lparr> schema_name = ''  rsi '', schema_inputs = [lengthInfo] \<rparr>"


definition cachedExample :: studies_state where
  "cachedExample =
     \<lparr> cache = [(''rsi'', CacheOk \<lparr> schema_name = ''RSI'', schema_inputs = [lengthInfo] \<rparr>),
                (''badstudy'', CacheErr ''unknown study''),
                (''macd'', CacheOk \<lparr> schema_name = ''MACD'',
                                      schema_inputs = [lengthInfo\<lparr>input_id := ''fast''\<rparr>] \<rparr>)],
       trace = [] \<rparr>"

definition stubbornChart :: chart_api where
  "stubbornChart = \<lparr> removeEntity = (\<lambda>h. if h = ''h2'' then Throws ''no such entity'' else Returns ()) \<rparr>"

definition bridgeExample :: bridge_state where
  "bridgeExample =
     \<lparr> chartRef = Some stubbornChart,
       appliedIndicators = [(''RSI'', ''h1''), (''MACD'', ''h2''), (''SMA_20'', ''h3'')],
       appliedPatterns = [(''TREND_LINE_1'', ''h2'')],
       appliedAnnotations = [],
       appliedPriceTargets = [(''TARGET_100'', ''h4'')],
       removeEntityCalls = [], consoleErrors = [] \<rparr>"


section \<open>Facts about the cache as a map\<close>

lemma delete_as_filter: "AList.delete k al = filter (\<lambda>p. fst p \<noteq> k) al"
  by (induction al) auto

lemma keyOf_rsi_padded: "keyOf ''  rsi '' = ''rsi''"
  by code_simp

lemma keyOf_RSI: "keyOf ''RSI'' = ''rsi''"
  by code_simp

lemma keyOf_MACD: "keyOf ''MACD'' = ''macd''"
  by code_simp

lemma keyOf_BADSTUDY: "keyOf ''BADSTUDY'' = ''badstudy''"
  by code_simp

lemma fetch_caches:
  assumes "getStudySchema_fetch e st S = (Returns schema, st')"
  shows "map_of (cache st') (keyOf S) = Some (CacheOk schema)"
  using assms
  by (auto simp: getStudySchema_fetch_def cacheSet_def Let_def AList.update_conv'
           split: option.splits prod.splits completion.splits)

lemma fetch_throws:
  assumes "getStudySchema_fetch e st S = (Throws m, st')"
  shows "map_of (cache st') (keyOf S) = Some (CacheErr m) \<or> cache st' = cache st"
  using assms
  by (auto simp: getStudySchema_fetch_def cacheSet_def logEvents_def fetchInputs_def Let_def
                 AList.update_conv'
           split: option.splits prod.splits completion.splits)

lemma hit_ok:
  assumes "map_of (cache st) (keyOf S) = Some (CacheOk schema)"
  shows "getStudySchema e st S = (Fulfilled schema, st)"
  using assms by (simp add: getStudySchema_def getStudySchema_cached_def)

lemma hit_err:
  assumes "map_of (cache st) (keyOf S) = Some (CacheErr m)"
  shows "getStudySchema e st S = (Rejected m, st)"
  using assms by (simp add: getStudySchema_def getStudySchema_cached_def)

lemma miss_fetches:
  assumes "map_of (cache st) (keyOf S) = None" and "ready e"
  shows "getStudySchema e st S =
           (settled (fst (getStudySchema_fetch e st S)), snd (getStudySchema_fetch e st S))"
  using assms by (simp add: getStudySchema_def getStudySchema_cached_def split: prod.splits)

lemma fulfilled_cached:
  assumes "getStudySchema e st S = (Fulfilled schema, st')"
  shows "map_of (cache st') (keyOf S) = Some (CacheOk schema)"
proof (cases "getStudySchema_cached st S")
  case None
  with assms obtain r where f: "getStudySchema_fetch e st S = (r, st')"
    and r: "settled r = Fulfilled schema"
    by (auto simp: getStudySchema_def split: if_splits prod.splits)
  from r have "r = Returns schema" by (cases r) auto
  with f fetch_caches show ?thesis by simp
next
  case (Some r)
  with assms have "settled r = Fulfilled schema" "st' = st"
    by (auto simp: getStudySchema_def)
  then have "r = Returns schema" by (cases r) auto
  with Some \<open>st' = st\<close> show ?thesis
    by (auto simp: getStudySchema_cached_def split: option.splits CacheEntry.splits)
qed

lemma rejected_cached_or_untouched:
  assumes "getStudySchema e st S = (Rejected m, st')"
  shows "map_of (cache st') (keyOf S) = Some (CacheErr m) \<or> cache st' = cache st"
proof (cases "getStudySchema_cached st S")
  case None
  with assms obtain r where f: "getStudySchema_fetch e st S = (r, st')"
    and r: "settled r = Rejected m"
    by (auto simp: getStudySchema_def split: if_splits prod.splits)
  from r have "r = Throws m" by (cases r) auto
  with f fetch_throws show ?thesis by simp
next
  case (Some r)
  with assms have "st' = st"
    by (auto simp: getStudySchema_def)
  then show ?thesis by simp
qed

lemma fetchInputs_trace: "prefix (trace st) (trace (snd (fetchInputs w S st)))"
  by (auto simp: fetchInputs_def logEvents_def split: option.splits completion.splits)

lemma fetch_probes:
  "prefix (trace st @ [ProbeWidget]) (trace (snd (getStudySchema_fetch e st S)))"
proof (cases "getWidget (window e)")
  case None
  then show ?thesis
    by (simp add: getStudySchema_fetch_def Let_def cacheSet_def logEvents_def)
next
  case (Some w)
  obtain r st2 where f: "fetchInputs w S (logEvents [ProbeWidget] st) = (r, st2)"
    by (cases "fetchInputs w S (logEvents [ProbeWidget] st)")
  from fetchInputs_trace[of "logEvents [ProbeWidget] st" w S] f
  have "prefix (trace st @ [ProbeWidget]) (trace st2)"
    by (simp add: logEvents_def)
  with Some f show ?thesis
    by (cases r)
       (simp_all add: getStudySchema_fetch_def Let_def cacheSet_def split: completion.splits)
qed

lemma clear_removes:
  "map_of (cache (clearStudyCache (Some S) st)) (keyOf S) = None"
  "map_of (cache (clearStudyCache None st)) (keyOf S) = None"
  by (simp_all add: clearStudyCache_def AList.delete_conv)

lemma clear_trace: "trace (clearStudyCache x st) = trace st"
  by (simp add: clearStudyCache_def split: option.splits)

lemma includes_empty: "includesStr s []"
  by (cases s) simp_all

lemma pushAll_eq:
  "pushAll name inputs hits =
     hits @ map (\<lambda>input. \<lparr> hit_study = name, hit_input = input \<rparr>) inputs"
  by (induction inputs arbitrary: hits) simp_all

lemma scanInputs_eq:
  "scanInputs q name inputs hits =
     hits @ map (\<lambda>input. \<lparr> hit_study = name, hit_input = input \<rparr>)
              (filter (inputMatches q) inputs)"
  by (induction inputs arbitrary: hits) simp_all

lemma scanCache_eq:
  "scanCache q c hits = hits @ concat (map (\<lambda>(k, entry). spec_entryHits q entry) c)"
proof (induction q c hits rule: scanCache.induct)
  case (1 q hits)
  show ?case by simp
next
  case (2 q k err rest hits)
  then show ?case by (simp add: spec_entryHits_def)
next
  case (3 q k schema rest hits)
  then show ?case
    by (simp add: spec_entryHits_def pushAll_eq scanInputs_eq)
qed

lemma entryHits_err: "\<not> isOk entry \<Longrightarrow> spec_entryHits q entry = []"
  by (cases entry) (simp_all add: isOk_def spec_entryHits_def)

lemma entryHits_empty:
  "spec_entryHits [] entry =
     (case entry of
        CacheErr err \<Rightarrow> []
      | CacheOk schema \<Rightarrow>
          map (\<lambda>input. \<lparr> hit_study = schema_name schema, hit_input = input \<rparr>)
            (schema_inputs schema))"
  by (cases entry) (simp_all add: spec_entryHits_def includes_empty)

lemma concat_skip_errors:
  "concat (map (\<lambda>(k, entry). spec_entryHits q entry) (filter (\<lambda>p. isOk (snd p)) c)) =
   concat (map (\<lambda>(k, entry). spec_entryHits q entry) c)"
  by (induction c) (auto simp: entryHits_err)

lemma ws_code: "isWhiteSpace c \<Longrightarrow> (of_char c :: nat) \<in> {9, 10, 11, 12, 13, 32}"
  by (auto simp: isWhiteSpace_def)

lemma ws_lower: "isWhiteSpace (lowerChar c) = isWhiteSpace c"
proof (cases "65 \<le> (of_char c :: nat) \<and> (of_char c :: nat) \<le> 90")
  case True
  then have "(of_char (lowerChar c) :: nat) = of_char c + 32"
    by (simp add: lowerChar_def Let_def)
  with True have "\<not> isWhiteSpace (lowerChar c)" "\<not> isWhiteSpace c"
    using ws_code[of "lowerChar c"] ws_code[of c] by auto
  then show ?thesis by simp
next
  case False
  then show ?thesis by (auto simp add: lowerChar_def Let_def)
qed

lemma trim_lower: "trim (toLowerCase s) = toLowerCase (trim s)"
proof -
  have "isWhiteSpace \<circ> lowerChar = isWhiteSpace"
    by (rule ext) (simp add: ws_lower)
  then show ?thesis
    by (simp add: trim_def toLowerCase_def dropWhile_map rev_map)
qed

lemma removeEach_frame:
  "chartRef (removeEach ch what tbl b) = chartRef b
   \<and> appliedIndicators (removeEach ch what tbl b) = appliedIndicators b
   \<and> appliedPatterns (removeEach ch what tbl b) = appliedPatterns b
   \<and> appliedAnnotations (removeEach ch what tbl b) = appliedAnnotations b
   \<and> appliedPriceTargets (removeEach ch what tbl b) = appliedPriceTargets b"
  by (induction ch what tbl b rule: removeEach.induct)
     (simp_all add: Let_def split: completion.splits)

lemma removeEach_calls:
  "removeEntityCalls (removeEach ch what tbl b) = removeEntityCalls b @ map snd tbl"
  by (induction ch what tbl b rule: removeEach.induct)
     (simp_all add: Let_def split: completion.splits)

lemma removeEach_errors:
  "consoleErrors (removeEach ch what tbl b) =
     consoleErrors b @
       map (\<lambda>p. ''Failed to remove '' @ what @ '' '' @ fst p @ '':'')
         (filter (\<lambda>p. removeEntity ch (snd p) \<noteq> Returns ()) tbl)"
  by (induction ch what tbl b rule: removeEach.induct)
     (auto simp: Let_def split: completion.splits)

lemma workerLoop_workers: "workers (snd (workerLoop studies c)) = workers c"
  by (simp add: workerLoop_def Let_def split: option.splits)

lemma spawn_length: "length (workers (spawn studies n c)) = length (workers c) + n"
proof (induction n arbitrary: c)
  case 0
  show ?case by simp
next
  case (Suc n)
  obtain w c' where wl: "workerLoop studies c = (w, c')" by (cases "workerLoop studies c")
  with workerLoop_workers[of studies c] have "workers c' = workers c" by simp
  with Suc wl show ?case by simp
qed

lemma crashed_None: "crashed ws = None \<longleftrightarrow> (\<forall>m. Crashed m \<notin> set ws)"
  by (induction ws rule: crashed.induct) auto

lemma workerLoop_cases:
  assumes "workerLoop studies c = (w, c')" and "total (result c) = length studies"
    and "idx c \<le> length studies"
  shows "(idx c < length studies \<and> idx c' = Suc (idx c) \<and> pendingNames w = [studies ! idx c]
            \<and> w \<noteq> Finished \<and> (\<forall>m. w \<noteq> Crashed m) \<and> weight w \<le> 2
            \<and> result c' = result c \<and> doneCount c' = doneCount c \<and> workers c' = workers c)
       \<or> (idx c = length studies \<and> w = Finished \<and> c' = c)"
  using assms by (auto simp: workerLoop_def Let_def split: if_splits option.splits)

lemma workerSettle_cases:
  assumes "quietProgress opts" and "workerSettle opts studies current r c = (w, c')"
  shows "\<exists>c2. workerLoop studies c2 = (w, c') \<and> idx c2 = idx c \<and> workers c2 = workers c
            \<and> total (result c2) = total (result c) \<and> doneCount c2 = Suc (doneCount c)
            \<and> mset (recorded (result c2)) = mset (recorded (result c)) + {#current#}"
proof -
  define c1 where "c1 = (case r of
      Returns schema \<Rightarrow> c\<lparr>result := (result c)\<lparr>success := success (result c) @ [current]\<rparr>\<rparr>
    | Throws m \<Rightarrow> c\<lparr>result := (result c)\<lparr>failed := failed (result c) @
                       [\<lparr> failure_name = current, failure_error = m \<rparr>]\<rparr>\<rparr>)"
  define c2 where "c2 = c1\<lparr>doneCount := doneCount c1 + 1\<rparr>"
  define c3 where "c3 = c2\<lparr>progressCalls := progressCalls c2 @
                                  [(doneCount c2, total (result c2), current)]\<rparr>"
  have p1: "idx c1 = idx c \<and> workers c1 = workers c \<and> total (result c1) = total (result c)
        \<and> doneCount c1 = doneCount c
        \<and> mset (recorded (result c1)) = mset (recorded (result c)) + {#current#}"
    by (cases r) (simp_all add: c1_def recorded_def)
  then have p2: "idx c2 = idx c \<and> workers c2 = workers c \<and> total (result c2) = total (result c)
        \<and> doneCount c2 = Suc (doneCount c)
        \<and> mset (recorded (result c2)) = mset (recorded (result c)) + {#current#}"
    by (simp add: c2_def)
  then have p3: "idx c3 = idx c \<and> workers c3 = workers c \<and> total (result c3) = total (result c)
        \<and> doneCount c3 = Suc (doneCount c)
        \<and> mset (recorded (result c3)) = mset (recorded (result c)) + {#current#}"
    by (simp add: c3_def)
  show ?thesis
  proof (cases "onProgress opts")
    case None
    with assms(2) have "workerLoop studies c2 = (w, c')"
      by (simp add: workerSettle_def Let_def c2_def c1_def)
    with p2 show ?thesis by blast
  next
    case (Some cb)
    with assms(1) have "cb (doneCount c2) (total (result c2)) current = Returns ()"
      by (simp add: quietProgress_def)
    with Some assms(2) have "workerLoop studies c3 = (w, c')"
      by (simp add: workerSettle_def Let_def c3_def c2_def c1_def)
    with p3 show ?thesis by blast
  qed
qed

lemma inFlight_split: "inFlight (A @ x # B) = inFlight A @ pendingNames x @ inFlight B"
  by (simp add: inFlight_def)

lemma step_ok:
  assumes inv: "prefetch_inv studies c" and quiet: "quietProgress opts"
    and i: "i < length (workers c)" and can: "canResume e (workers c ! i)"
  shows "prefetch_inv studies (resumeWorker e opts studies i c)
       \<and> remaining studies (resumeWorker e opts studies i c) < remaining studies c
       \<and> length (workers (resumeWorker e opts studies i c)) = length (workers c)"
proof -
  define A where "A = take i (workers c)"
  define B where "B = drop (Suc i) (workers c)"
  define x where "x = workers c ! i"
  have ws: "workers c = A @ x # B"
    using i by (simp add: A_def B_def x_def id_take_nth_drop)
  have upd: "(workers c)[i := w] = A @ w # B" for w
    using i by (simp add: A_def B_def upd_conv_take_nth_drop)
  from inv have tot: "total (result c) = length studies" and le: "idx c \<le> length studies"
    and ms: "mset (recorded (result c)) + mset (inFlight (workers c)) = mset (take (idx c) studies)"
    and dn: "doneCount c = length (recorded (result c))"
    and fin: "Finished \<in> set (workers c) \<longrightarrow> idx c = length studies"
    and nc: "\<forall>m. Crashed m \<notin> set (workers c)"
    by (simp_all add: prefetch_inv_def)
  show ?thesis
  proof (cases x)
    case (AwaitReady current)
    obtain r m' where f: "getStudySchema_fetch e (module c) current = (r, m')"
      by (cases "getStudySchema_fetch e (module c) current")
    have res: "resumeWorker e opts studies i c =
                 c\<lparr>module := m', workers := A @ AwaitSchema current r # B\<rparr>"
      using AwaitReady f upd by (simp add: resumeWorker_def x_def[symmetric])
    show ?thesis
      using tot le ms dn fin nc
      by (simp add: res prefetch_inv_def remaining_def ws AwaitReady inFlight_split)
  next
    case (AwaitSchema current r)
    obtain w c' where s: "workerSettle opts studies current r c = (w, c')"
      by (cases "workerSettle opts studies current r c")
    have res: "resumeWorker e opts studies i c = c'\<lparr>workers := (workers c')[i := w]\<rparr>"
      using AwaitSchema s by (simp add: resumeWorker_def x_def[symmetric])
    from workerSettle_cases[OF quiet s] obtain c2 where
      wl: "workerLoop studies c2 = (w, c')" and i2: "idx c2 = idx c"
      and w2: "workers c2 = workers c" and t2: "total (result c2) = total (result c)"
      and d2: "doneCount c2 = Suc (doneCount c)"
      and m2: "mset (recorded (result c2)) = mset (recorded (result c)) + {#current#}"
      by blast
    from arg_cong[OF m2, of size]
    have l2: "length (recorded (result c2)) = Suc (length (recorded (result c)))"
      by simp
    from workerLoop_cases[OF wl] t2 tot i2 le
    consider (more) "idx c < length studies" "idx c' = Suc (idx c)"
        "pendingNames w = [studies ! idx c]" "w \<noteq> Finished" "\<forall>m. w \<noteq> Crashed m"
        "weight w \<le> 2" "result c' = result c2" "doneCount c' = doneCount c2"
        "workers c' = workers c"
      | (last) "idx c = length studies" "w = Finished" "c' = c2"
      using w2 by auto
    then show ?thesis
    proof cases
      case more
      from more(1) fin have nf: "Finished \<notin> set A" "Finished \<notin> set B"
        by (auto simp: ws)
      have tk: "mset (take (Suc (idx c)) studies) = mset (take (idx c) studies) + {#studies ! idx c#}"
        using more(1) by (simp add: take_Suc_conv_app_nth)
      have res': "resumeWorker e opts studies i c = c'\<lparr>workers := A @ w # B\<rparr>"
        using res more(9) upd by simp
      have g1: "prefetch_inv studies (c'\<lparr>workers := A @ w # B\<rparr>)"
        using tot le ms dn nc more nf t2 d2 m2 l2 tk
        by (auto simp add: prefetch_inv_def ws AwaitSchema inFlight_split)
      have g2: "remaining studies (c'\<lparr>workers := A @ w # B\<rparr>) < remaining studies c"
        using more(1,2,6) by (simp add: remaining_def ws AwaitSchema)
      from g1 g2 show ?thesis by (simp add: res' ws)
    next
      case last
      have res': "resumeWorker e opts studies i c = c2\<lparr>workers := A @ Finished # B\<rparr>"
        using res last w2 upd by simp
      have g1: "prefetch_inv studies (c2\<lparr>workers := A @ Finished # B\<rparr>)"
        using tot le ms dn nc last t2 d2 m2 l2 i2
        by (auto simp add: prefetch_inv_def ws AwaitSchema inFlight_split)
      have g2: "remaining studies (c2\<lparr>workers := A @ Finished # B\<rparr>) < remaining studies c"
        using i2 by (simp add: remaining_def ws AwaitSchema)
      from g1 g2 show ?thesis by (simp add: res' ws)
    qed
  next
    case Finished
    with can show ?thesis by (simp add: canResume_def x_def)
  next
    case (Crashed m)
    with can show ?thesis by (simp add: canResume_def x_def)
  qed
qed

lemma spawn_ok:
  assumes "prefetch_inv studies c"
  shows "prefetch_inv studies (spawn studies n c)
       \<and> remaining studies (spawn studies n c) \<le> remaining studies c
       \<and> length (workers (spawn studies n c)) = length (workers c) + n"
  using assms
proof (induction n arbitrary: c)
  case 0
  then show ?case by simp
next
  case (Suc n)
  obtain w c' where wl: "workerLoop studies c = (w, c')" by (cases "workerLoop studies c")
  from Suc.prems have tot: "total (result c) = length studies" and le: "idx c \<le> length studies"
    and ms: "mset (recorded (result c)) + mset (inFlight (workers c)) = mset (take (idx c) studies)"
    and dn: "doneCount c = length (recorded (result c))"
    and fin: "Finished \<in> set (workers c) \<longrightarrow> idx c = length studies"
    and nc: "\<forall>m. Crashed m \<notin> set (workers c)"
    by (simp_all add: prefetch_inv_def)
  let ?c = "c'\<lparr>workers := workers c' @ [w]\<rparr>"
  have "prefetch_inv studies ?c \<and> remaining studies ?c \<le> remaining studies c
        \<and> length (workers ?c) = Suc (length (workers c))"
    using workerLoop_cases[OF wl tot le]
  proof
    assume a: "idx c < length studies \<and> idx c' = Suc (idx c) \<and> pendingNames w = [studies ! idx c]
            \<and> w \<noteq> Finished \<and> (\<forall>m. w \<noteq> Crashed m) \<and> weight w \<le> 2
            \<and> result c' = result c \<and> doneCount c' = doneCount c \<and> workers c' = workers c"
    then have tk: "mset (take (Suc (idx c)) studies) = mset (take (idx c) studies) + {#studies ! idx c#}"
      by (simp add: take_Suc_conv_app_nth)
    from a fin have nf: "Finished \<notin> set (workers c)" by auto
    have g1: "prefetch_inv studies ?c"
      using a tot le ms dn nc nf tk by (auto simp add: prefetch_inv_def inFlight_def)
    have g2: "remaining studies ?c \<le> remaining studies c"
    proof -
      from a have "idx c < length studies" "idx c' = Suc (idx c)" "weight w \<le> 2"
        "workers c' = workers c" by simp_all
      then show ?thesis by (simp add: remaining_def)
    qed
    from g1 g2 a show ?thesis by simp
  next
    assume a: "idx c = length studies \<and> w = Finished \<and> c' = c"
    then show ?thesis
      using tot le ms dn nc by (auto simp add: prefetch_inv_def inFlight_def remaining_def)
  qed
  with Suc.IH[of ?c] wl show ?case by simp
qed

lemma unfinished_runnable:
  assumes "\<not> list_all (\<lambda>w. w = Finished) (workers c)" and "\<forall>m. Crashed m \<notin> set (workers c)"
    and "ready e"
  shows "runnable e c \<noteq> [] \<and> 0 < remaining studies c"
proof -
  from assms(1) obtain i where i: "i < length (workers c)" "workers c ! i \<noteq> Finished"
    by (auto simp: list_all_length)
  from i(1) have mem: "workers c ! i \<in> set (workers c)"
    by simp
  with assms(2) have nc: "\<forall>m. workers c ! i \<noteq> Crashed m"
    by auto
  with i assms(3) have can: "canResume e (workers c ! i)"
    by (cases "workers c ! i") (auto simp add: canResume_def)
  with i have "i \<in> set (runnable e c)" by (simp add: runnable_def)
  then have r: "runnable e c \<noteq> []" by auto
  from i nc have "0 < weight (workers c ! i)" by (cases "workers c ! i") auto
  moreover have "weight (workers c ! i) \<in> set (map weight (workers c))"
    using mem by simp
  then have "weight (workers c ! i) \<le> sum_list (map weight (workers c))"
    by (simp add: member_le_sum_list)
  ultimately show ?thesis using r by (simp add: remaining_def)
qed

lemma runnable_pick:
  assumes "runnable e c \<noteq> []"
  shows "runnable e c ! (n mod length (runnable e c)) < length (workers c)
       \<and> canResume e (workers c ! (runnable e c ! (n mod length (runnable e c))))"
proof -
  from assms have "runnable e c ! (n mod length (runnable e c)) \<in> set (runnable e c)"
    by simp
  then show ?thesis by (simp add: runnable_def)
qed

lemma run_ok:
  assumes "prefetch_inv studies c" and "quietProgress opts" and "ready e"
    and "remaining studies c \<le> length sched"
  shows "\<exists>c'. run e opts studies sched c = Some (Fulfilled (result c'), c')
            \<and> prefetch_inv studies c' \<and> list_all (\<lambda>w. w = Finished) (workers c')
            \<and> length (workers c') = length (workers c)"
  using assms
proof (induction sched arbitrary: c)
  case Nil
  from Nil.prems(1) have nc: "\<forall>m. Crashed m \<notin> set (workers c)"
    by (simp add: prefetch_inv_def)
  then have cr: "crashed (workers c) = None" by (simp add: crashed_None)
  show ?case
  proof (cases "list_all (\<lambda>w. w = Finished) (workers c)")
    case True
    with cr Nil.prems(1) show ?thesis by simp
  next
    case False
    from unfinished_runnable[OF False nc Nil.prems(3), of studies] Nil.prems(4)
    show ?thesis by simp
  qed
next
  case (Cons n sched)
  from Cons.prems(1) have nc: "\<forall>m. Crashed m \<notin> set (workers c)"
    by (simp add: prefetch_inv_def)
  then have cr: "crashed (workers c) = None" by (simp add: crashed_None)
  show ?case
  proof (cases "list_all (\<lambda>w. w = Finished) (workers c)")
    case True
    with cr Cons.prems(1) show ?thesis by simp
  next
    case False
    from unfinished_runnable[OF False nc Cons.prems(3), of studies]
    have rn: "runnable e c \<noteq> []" by simp
    let ?i = "runnable e c ! (n mod length (runnable e c))"
    let ?c = "resumeWorker e opts studies ?i c"
    from runnable_pick[OF rn, of n]
    have pick: "?i < length (workers c)" "canResume e (workers c ! ?i)" by simp_all
    from step_ok[OF Cons.prems(1,2) pick]
    have st: "prefetch_inv studies ?c" "remaining studies ?c < remaining studies c"
      "length (workers ?c) = length (workers c)" by simp_all
    from st(2) Cons.prems(4) have "remaining studies ?c \<le> length sched" by simp
    from Cons.IH[OF st(1) Cons.prems(2,3) this] st(3)
    obtain c' where "run e opts studies sched ?c = Some (Fulfilled (result c'), c')"
      "prefetch_inv studies c'" "list_all (\<lambda>w. w = Finished) (workers c')"
      "length (workers c') = length (workers c)" by auto
    moreover have "run e opts studies (n # sched) c = run e opts studies sched ?c"
      using cr False rn by simp
    ultimately show ?thesis by simp
  qed
qed

lemma finished_summary:
  assumes "prefetch_inv studies c" and "list_all (\<lambda>w. w = Finished) (workers c)"
    and "workers c = [] \<longrightarrow> studies = []"
  shows "total (result c) = length studies
       \<and> length (success (result c)) + length (failed (result c)) = length studies
       \<and> mset (success (result c)) + mset (map failure_name (failed (result c))) = mset studies"
proof -
  from assms(1) have tot: "total (result c) = length studies" and le: "idx c \<le> length studies"
    and ms: "mset (recorded (result c)) + mset (inFlight (workers c)) = mset (take (idx c) studies)"
    and fin: "Finished \<in> set (workers c) \<longrightarrow> idx c = length studies"
    by (simp_all add: prefetch_inv_def)
  from assms(2) have "inFlight (workers c) = []"
    by (induction "workers c" arbitrary: c) (auto simp: inFlight_def list_all_iff)
  then have m0: "mset (recorded (result c)) = mset (take (idx c) studies)"
    using ms by simp
  have "take (idx c) studies = studies"
  proof (cases "workers c")
    case Nil
    with assms(3) show ?thesis by simp
  next
    case (Cons w ws)
    with assms(2) have "Finished \<in> set (workers c)" by simp
    with fin show ?thesis by simp
  qed
  with m0 have m1: "mset (recorded (result c)) = mset studies" by simp
  from arg_cong[OF m1, of size] have "length (recorded (result c)) = length studies"
    by simp
  with m1 tot show ?thesis by (simp add: recorded_def)
qed

lemma entryOf_inj: "entryOf r = entryOf r' \<Longrightarrow> r = r'"
  by (cases r; cases r') simp_all

lemma fetchInputs_fst: "fst (fetchInputs w S st) = fst (fetchInputs w S st')"
  by (simp add: fetchInputs_def split: option.splits completion.splits)

lemma fetch_fst: "fst (getStudySchema_fetch e st S) = fetched e S"
proof (cases "getWidget (window e)")
  case None
  then show ?thesis by (simp add: fetched_def getStudySchema_fetch_def Let_def)
next
  case (Some w)
  let ?a = "fetchInputs w S (logEvents [ProbeWidget] st)"
  let ?b = "fetchInputs w S (logEvents [ProbeWidget] \<lparr> cache = [], trace = [] \<rparr>)"
  have eq: "fst ?a = fst ?b" by (rule fetchInputs_fst)
  obtain ra sa where a: "?a = (ra, sa)" by (cases ?a)
  obtain rb sb where b: "?b = (rb, sb)" by (cases ?b)
  from eq a b have "ra = rb" by simp
  with Some a b show ?thesis
    by (simp add: fetched_def getStudySchema_fetch_def Let_def
             split: completion.splits)
qed

lemma fetch_cache_effect:
  assumes "getStudySchema_fetch e st S = (r, st')"
  shows "cache st' = cache st \<or> cache st' = AList.update (keyOf S) (entryOf r) (cache st)"
  using assms
  by (auto simp: getStudySchema_fetch_def cacheSet_def logEvents_def fetchInputs_def Let_def
           split: option.splits prod.splits completion.splits)

lemma cached_entry:
  assumes "getStudySchema_cached st n = Some r"
  shows "map_of (cache st) (keyOf n) = Some (entryOf r)"
  using assms
  by (auto simp: getStudySchema_cached_def split: option.splits CacheEntry.splits)

lemma workerLoop_prov:
  assumes p: "prefetch_prov e st0 studies c" and wl: "workerLoop studies c = (w, c')"
    and t: "total (result c) = length studies"
  shows "module c' = module c \<and> result c' = result c \<and> workers c' = workers c
       \<and> (\<forall>n. w = AwaitReady n \<longrightarrow> n \<in> set studies)
       \<and> (\<forall>n r. w = AwaitSchema n r \<longrightarrow> accounted e st0 studies n r)"
proof (cases "idx c < total (result c)")
  case False
  with wl show ?thesis by (auto simp: workerLoop_def)
next
  case True
  let ?n = "studies ! idx c"
  from True t have mem: "?n \<in> set studies" by simp
  show ?thesis
  proof (cases "getStudySchema_cached (module c) ?n")
    case None
    with True wl mem show ?thesis by (auto simp: workerLoop_def Let_def)
  next
    case (Some r)
    from cached_entry[OF Some] have ce: "map_of (cache (module c)) (keyOf ?n) = Some (entryOf r)" .
    from p have "map_of (cache st0) (keyOf ?n) = Some (entryOf r)
        \<or> (\<exists>n' \<in> set studies. keyOf n' = keyOf ?n \<and> entryOf (fetched e n') = entryOf r)"
      using ce unfolding prefetch_prov_def by blast
    then have "accounted e st0 studies ?n r"
      unfolding accounted_def using entryOf_inj by blast
    with True wl Some show ?thesis by (auto simp: workerLoop_def Let_def)
  qed
qed

lemma workerSettle_prov:
  assumes p: "prefetch_prov e st0 studies c" and a: "accounted e st0 studies current r"
    and s: "workerSettle opts studies current r c = (w, c')"
    and t: "total (result c) = length studies"
  shows "module c' = module c \<and> workers c' = workers c
       \<and> (\<forall>n \<in> set (success (result c')). \<exists>schema. accounted e st0 studies n (Returns schema))
       \<and> (\<forall>f \<in> set (failed (result c')).
             accounted e st0 studies (failure_name f) (Throws (failure_error f)))
       \<and> (\<forall>n. w = AwaitReady n \<longrightarrow> n \<in> set studies)
       \<and> (\<forall>n r. w = AwaitSchema n r \<longrightarrow> accounted e st0 studies n r)"
proof -
  define c1 where "c1 = (case r of
      Returns schema \<Rightarrow> c\<lparr>result := (result c)\<lparr>success := success (result c) @ [current]\<rparr>\<rparr>
    | Throws m \<Rightarrow> c\<lparr>result := (result c)\<lparr>failed := failed (result c) @
                       [\<lparr> failure_name = current, failure_error = m \<rparr>]\<rparr>\<rparr>)"
  define c2 where "c2 = c1\<lparr>doneCount := doneCount c1 + 1\<rparr>"
  define c3 where "c3 = c2\<lparr>progressCalls := progressCalls c2 @
                                  [(doneCount c2, total (result c2), current)]\<rparr>"
  from p have ps: "\<forall>n \<in> set (success (result c)). \<exists>schema. accounted e st0 studies n (Returns schema)"
    and pf: "\<forall>f \<in> set (failed (result c)).
               accounted e st0 studies (failure_name f) (Throws (failure_error f))"
    by (simp_all add: prefetch_prov_def)
  have q1: "module c1 = module c \<and> workers c1 = workers c \<and> total (result c1) = total (result c)
      \<and> (\<forall>n \<in> set (success (result c1)). \<exists>schema. accounted e st0 studies n (Returns schema))
      \<and> (\<forall>f \<in> set (failed (result c1)).
             accounted e st0 studies (failure_name f) (Throws (failure_error f)))"
  proof (cases r)
    case (Returns schema)
    with a ps pf show ?thesis by (auto simp: c1_def)
  next
    case (Throws m)
    with a ps pf show ?thesis by (auto simp: c1_def)
  qed
  from p q1 have p2: "prefetch_prov e st0 studies c2" and t2: "total (result c2) = length studies"
    and r2: "result c2 = result c1" and m2: "module c2 = module c" and w2: "workers c2 = workers c"
    using t by (simp_all add: prefetch_prov_def c2_def)
  from p2 t2 r2 m2 w2 have p3: "prefetch_prov e st0 studies c3"
    and t3: "total (result c3) = length studies"
    and r3: "result c3 = result c1" and m3: "module c3 = module c" and w3: "workers c3 = workers c"
    by (simp_all add: prefetch_prov_def c3_def)
  show ?thesis
  proof (cases "onProgress opts")
    case None
    with s have "workerLoop studies c2 = (w, c')"
      by (simp add: workerSettle_def Let_def c2_def c1_def)
    from workerLoop_prov[OF p2 this t2] q1 r2 m2 w2 show ?thesis by simp
  next
    case (Some cb)
    show ?thesis
    proof (cases "cb (doneCount c2) (total (result c2)) current")
      case (Returns u)
      with Some s have "workerLoop studies c3 = (w, c')"
        by (simp add: workerSettle_def Let_def c3_def c2_def c1_def)
      from workerLoop_prov[OF p3 this t3] q1 r3 m3 w3 show ?thesis by simp
    next
      case (Throws m)
      with Some s have "w = Crashed m" "c' = c3"
        by (simp_all add: workerSettle_def Let_def c3_def c2_def c1_def)
      with q1 r3 m3 w3 show ?thesis by simp
    qed
  qed
qed

lemma prov_with_worker:
  assumes cache: "\<forall>k entry. map_of (cache (module c')) k = Some entry \<longrightarrow>
          map_of (cache st0) k = Some entry
        \<or> (\<exists>n' \<in> set studies. keyOf n' = k \<and> entryOf (fetched e n') = entry)"
    and ws: "set (workers c') \<subseteq> insert w (set ws0)"
    and old: "\<forall>n. AwaitReady n \<in> set ws0 \<longrightarrow> n \<in> set studies"
      "\<forall>n r. AwaitSchema n r \<in> set ws0 \<longrightarrow> accounted e st0 studies n r"
    and new: "\<forall>n. w = AwaitReady n \<longrightarrow> n \<in> set studies"
      "\<forall>n r. w = AwaitSchema n r \<longrightarrow> accounted e st0 studies n r"
    and res: "\<forall>n \<in> set (success (result c')). \<exists>schema. accounted e st0 studies n (Returns schema)"
      "\<forall>f \<in> set (failed (result c')).
             accounted e st0 studies (failure_name f) (Throws (failure_error f))"
  shows "prefetch_prov e st0 studies c'"
  unfolding prefetch_prov_def
proof (intro conjI)
  show "\<forall>n. AwaitReady n \<in> set (workers c') \<longrightarrow> n \<in> set studies"
    using ws old(1) new(1) by blast
  show "\<forall>n r. AwaitSchema n r \<in> set (workers c') \<longrightarrow> accounted e st0 studies n r"
    using ws old(2) new(2) by blast
qed (use cache res in blast)+

lemma step_prov:
  assumes p: "prefetch_prov e st0 studies c" and i: "i < length (workers c)"
    and t: "total (result c) = length studies"
  shows "prefetch_prov e st0 studies (resumeWorker e opts studies i c)"
proof -
  from p have pc: "\<forall>k entry. map_of (cache (module c)) k = Some entry \<longrightarrow>
          map_of (cache st0) k = Some entry
        \<or> (\<exists>n' \<in> set studies. keyOf n' = k \<and> entryOf (fetched e n') = entry)"
    and pr: "\<forall>n. AwaitReady n \<in> set (workers c) \<longrightarrow> n \<in> set studies"
    and pa: "\<forall>n r. AwaitSchema n r \<in> set (workers c) \<longrightarrow> accounted e st0 studies n r"
    and ps: "\<forall>n \<in> set (success (result c)). \<exists>schema. accounted e st0 studies n (Returns schema)"
    and pf: "\<forall>f \<in> set (failed (result c)).
               accounted e st0 studies (failure_name f) (Throws (failure_error f))"
    by (simp_all add: prefetch_prov_def)
  from i have mem: "workers c ! i \<in> set (workers c)" by simp
  have upd: "set ((workers c)[i := w]) \<subseteq> insert w (set (workers c))" for w
    by (rule set_update_subset_insert)
  show ?thesis
  proof (cases "workers c ! i")
    case (AwaitReady n)
    with mem pr have n: "n \<in> set studies" by simp
    obtain r m' where f: "getStudySchema_fetch e (module c) n = (r, m')"
      by (cases "getStudySchema_fetch e (module c) n")
    from fetch_fst[of e "module c" n] f have r: "r = fetched e n" by simp
    have res: "resumeWorker e opts studies i c =
                 c\<lparr>module := m', workers := (workers c)[i := AwaitSchema n r]\<rparr>"
      using AwaitReady f by (simp add: resumeWorker_def)
    have cache': "\<forall>k entry. map_of (cache m') k = Some entry \<longrightarrow>
          map_of (cache st0) k = Some entry
        \<or> (\<exists>n' \<in> set studies. keyOf n' = k \<and> entryOf (fetched e n') = entry)"
      using fetch_cache_effect[OF f]
    proof
      assume "cache m' = cache (module c)"
      with pc show ?thesis by simp
    next
      assume u: "cache m' = AList.update (keyOf n) (entryOf r) (cache (module c))"
      show ?thesis
      proof (intro allI impI)
        fix k entry assume "map_of (cache m') k = Some entry"
        with u have "(if k = keyOf n then Some (entryOf r) else map_of (cache (module c)) k)
                       = Some entry"
          by (simp add: AList.update_conv')
        with pc n r show "map_of (cache st0) k = Some entry
            \<or> (\<exists>n' \<in> set studies. keyOf n' = k \<and> entryOf (fetched e n') = entry)"
          by (auto split: if_splits)
      qed
    qed
    have acc: "accounted e st0 studies n r"
      unfolding accounted_def using n r by blast
    show ?thesis
      unfolding res
      by (rule prov_with_worker[where w = "AwaitSchema n r" and ?ws0.0 = "workers c"])
         (use cache' upd pr pa acc ps pf in simp_all)
  next
    case (AwaitSchema n r)
    with mem pa have a: "accounted e st0 studies n r" by simp
    obtain w c' where s: "workerSettle opts studies n r c = (w, c')"
      by (cases "workerSettle opts studies n r c")
    have res: "resumeWorker e opts studies i c = c'\<lparr>workers := (workers c')[i := w]\<rparr>"
      using AwaitSchema s by (simp add: resumeWorker_def)
    from workerSettle_prov[OF p a s t]
    have f: "module c' = module c" "workers c' = workers c"
      "\<forall>n \<in> set (success (result c')). \<exists>schema. accounted e st0 studies n (Returns schema)"
      "\<forall>f \<in> set (failed (result c')).
             accounted e st0 studies (failure_name f) (Throws (failure_error f))"
      "\<forall>n. w = AwaitReady n \<longrightarrow> n \<in> set studies"
      "\<forall>n r. w = AwaitSchema n r \<longrightarrow> accounted e st0 studies n r"
      by simp_all
    show ?thesis
      unfolding res
      by (rule prov_with_worker[where w = w and ?ws0.0 = "workers c"])
         (use f pc upd pr pa in simp_all)
  next
    case Finished
    with p show ?thesis by (simp add: resumeWorker_def)
  next
    case (Crashed m)
    with p show ?thesis by (simp add: resumeWorker_def)
  qed
qed

lemma spawn_prov:
  assumes "prefetch_prov e st0 studies c" and "total (result c) = length studies"
  shows "prefetch_prov e st0 studies (spawn studies n c)"
  using assms
proof (induction n arbitrary: c)
  case 0
  then show ?case by simp
next
  case (Suc n)
  obtain w c' where wl: "workerLoop studies c = (w, c')" by (cases "workerLoop studies c")
  from workerLoop_prov[OF Suc.prems(1) wl Suc.prems(2)]
  have f: "module c' = module c" "result c' = result c" "workers c' = workers c"
    "\<forall>n. w = AwaitReady n \<longrightarrow> n \<in> set studies"
    "\<forall>n r. w = AwaitSchema n r \<longrightarrow> accounted e st0 studies n r"
    by simp_all
  from Suc.prems(1) have pc: "\<forall>k entry. map_of (cache (module c)) k = Some entry \<longrightarrow>
          map_of (cache st0) k = Some entry
        \<or> (\<exists>n' \<in> set studies. keyOf n' = k \<and> entryOf (fetched e n') = entry)"
    and pr: "\<forall>n. AwaitReady n \<in> set (workers c) \<longrightarrow> n \<in> set studies"
    and pa: "\<forall>n r. AwaitSchema n r \<in> set (workers c) \<longrightarrow> accounted e st0 studies n r"
    and ps: "\<forall>n \<in> set (success (result c)). \<exists>schema. accounted e st0 studies n (Returns schema)"
    and pf: "\<forall>f \<in> set (failed (result c)).
               accounted e st0 studies (failure_name f) (Throws (failure_error f))"
    by (simp_all add: prefetch_prov_def)
  let ?c = "c'\<lparr>workers := workers c' @ [w]\<rparr>"
  have "prefetch_prov e st0 studies ?c"
    by (rule prov_with_worker[where w = w and ?ws0.0 = "workers c"])
       (use f pc pr pa ps pf in auto)
  moreover have "total (result ?c) = length studies"
    using f(2) Suc.prems(2) by simp
  ultimately have "prefetch_prov e st0 studies (spawn studies n ?c)"
    by (rule Suc.IH)
  with wl show ?case by simp
qed

lemma run_prov:
  assumes "run e opts studies sched c = Some (x, c')" and "prefetch_inv studies c"
    and "quietProgress opts" and "prefetch_prov e st0 studies c"
  shows "prefetch_prov e st0 studies c'"
  using assms
proof (induction sched arbitrary: c)
  case Nil
  then show ?case
    by (auto split: option.splits if_splits)
next
  case (Cons n sched)
  show ?case
  proof (cases "crashed (workers c) = None \<and> \<not> list_all (\<lambda>w. w = Finished) (workers c)
                \<and> runnable e c \<noteq> []")
    case False
    with Cons.prems(1,4) show ?thesis
      by (auto split: option.splits if_splits)
  next
    case True
    let ?i = "runnable e c ! (n mod length (runnable e c))"
    let ?c = "resumeWorker e opts studies ?i c"
    from True have rn: "runnable e c \<noteq> []" by simp
    from runnable_pick[OF rn, of n]
    have pick: "?i < length (workers c)" "canResume e (workers c ! ?i)" by simp_all
    from step_ok[OF Cons.prems(2,3) pick] have inv': "prefetch_inv studies ?c" by simp
    from Cons.prems(2) have t: "total (result c) = length studies"
      by (simp add: prefetch_inv_def)
    from step_prov[OF Cons.prems(4) pick(1) t] have prov': "prefetch_prov e st0 studies ?c" .
    from True Cons.prems(1) have "run e opts studies sched ?c = Some (x, c')" by simp
    from Cons.IH[OF this inv' Cons.prems(3) prov'] show ?thesis .
  qed
qed

lemma accounted_fresh:
  assumes "cache st0 = []" and "\<forall>n' \<in> set studies. keyOf n' = keyOf n \<longrightarrow> n' = n"
  shows "accounted e st0 studies n r \<longleftrightarrow> n \<in> set studies \<and> fetched e n = r"
  using assms by (auto simp: accounted_def)

lemma workerCount_cases:
  "concurrency opts = None \<Longrightarrow> workerCount opts n = ToLength (Num (min 8 (of_nat n)))"
  "concurrency opts = Some (Num q) \<Longrightarrow>
     workerCount opts n = ToLength (Num (min (max 1 q) (of_nat n)))"
  "concurrency opts = Some PosInfinity \<Longrightarrow> workerCount opts n = ToLength (Num (of_nat n))"
  "concurrency opts = Some NegInfinity \<Longrightarrow>
     workerCount opts n = ToLength (Num (min 1 (of_nat n)))"
  "concurrency opts = Some NaN \<Longrightarrow> workerCount opts n = 0"
  by (simp_all add: workerCount_def effectiveConcurrency_def)

lemma ToLength_floor:
  assumes "0 \<le> r" and "r \<le> of_nat n" and "n < 2 ^ 32"
  shows "ToLength (Num r) = nat \<lfloor>r\<rfloor>"
proof (cases "r \<le> 0")
  case True
  with assms(1) have "r = 0" by simp
  then show ?thesis by simp
next
  case False
  from assms(2) have "\<lfloor>r\<rfloor> \<le> \<lfloor>(of_nat n :: rat)\<rfloor>" by (rule floor_mono)
  then have "nat \<lfloor>r\<rfloor> \<le> n" by simp
  moreover have "(2::nat) ^ 32 \<le> 2 ^ 53 - 1" by simp
  ultimately have "nat \<lfloor>r\<rfloor> \<le> 2 ^ 53 - 1" using assms(3) by linarith
  with False show ?thesis by (simp add: min_def)
qed

lemma ToLength_positive:
  assumes "1 \<le> r"
  shows "0 < ToLength (Num r)"
proof -
  from assms have "1 \<le> \<lfloor>r\<rfloor>" by (simp add: le_floor_iff)
  then have "0 < nat \<lfloor>r\<rfloor>" by simp
  moreover have "(0::nat) < 2 ^ 53 - 1" by simp
  ultimately show ?thesis using assms by (simp add: min_def)
qed

lemma workerCount_positive:
  assumes "concurrency opts \<noteq> Some NaN" and "0 < n"
  shows "0 < workerCount opts n"
proof (cases "concurrency opts")
  case None
  from assms(2) have "(1::rat) \<le> min 8 (of_nat n)" by simp
  with workerCount_cases(1)[OF None, of n] show ?thesis
    by (simp add: ToLength_positive del: ToLength.simps)
next
  case (Some c)
  show ?thesis
  proof (cases c)
    case (Num q)
    from assms(2) have "(1::rat) \<le> min (max 1 q) (of_nat n)" by simp
    moreover from Some Num have "concurrency opts = Some (Num q)" by simp
    note workerCount_cases(2)[OF this, of n]
    ultimately show ?thesis
      by (simp add: ToLength_positive del: ToLength.simps)
  next
    case NaN
    with Some assms(1) show ?thesis by simp
  next
    case PosInfinity
    from assms(2) have "(1::rat) \<le> of_nat n" by simp
    moreover from Some PosInfinity have "concurrency opts = Some PosInfinity" by simp
    note workerCount_cases(3)[OF this, of n]
    ultimately show ?thesis
      by (simp add: ToLength_positive del: ToLength.simps)
  next
    case NegInfinity
    from assms(2) have "(1::rat) \<le> min 1 (of_nat n)" by simp
    moreover from Some NegInfinity have "concurrency opts = Some NegInfinity" by simp
    note workerCount_cases(4)[OF this, of n]
    ultimately show ?thesis
      by (simp add: ToLength_positive del: ToLength.simps)
  qed
qed

lemma floor_five_halves: "\<lfloor>5 / 2 :: rat\<rfloor> = 2"
  by (rule floor_unique) simp_all

lemma workerCount_two_of_three:
  "workerCount \<lparr> concurrency = Some (Num 2), onProgress = cb \<rparr> 3 = 2"
  by (simp add: workerCount_def effectiveConcurrency_def)

lemma workerCount_NaN_of_three:
  "workerCount \<lparr> concurrency = Some NaN, onProgress = cb \<rparr> 3 = 0"
  by (simp add: workerCount_def effectiveConcurrency_def)

lemmas run_defs =
  getStudySchema_def getStudySchema_cached_def getStudySchema_fetch_def fetchInputs_def
  getWidget_def cacheSet_def logEvents_def normalizeInputs_def
  failedMessage_def emptyState_def readyEnv_def sampleWidget_def sampleAccessor_def
  bareWidget_def noIdWidget_def nullElementWidget_def cannotRead_def lengthInput_def
  lengthInfo_def rsiSchema_def Let_def


section \<open>Cache hits\<close>

text \<open>
  C2. Once \<open>getStudySchema(S)\<close> has succeeded, a call with any name that has the same
  normalized key returns the very schema of the first call, whatever the environment is by
  then, and hands the state back as it was: the cache is the same and the widget trace has
  not grown, so no second widget query was made.
\<close>

theorem getStudySchema_second_call_cached:
  assumes "getStudySchema e st S = (Fulfilled schema, st')" and "keyOf S' = keyOf S"
  shows "getStudySchema e' st' S' = (Fulfilled schema, st')"
  using fulfilled_cached[OF assms(1)] assms(2) by (simp add: hit_ok)

theorem getStudySchema_second_call_cached_witness:
  "getStudySchema (readyEnv (Some sampleWidget)) emptyState ''  rsi '' =
     (Fulfilled rsiSchema,
      \<lparr> cache = [(''rsi'', CacheOk rsiSchema)],
        trace = [ProbeWidget, CallGetStudyInputs ''  rsi ''] \<rparr>)
   \<and> keyOf ''RSI'' = keyOf ''  rsi ''
   \<and> getStudySchema (readyEnv None)
         \<lparr> cache = [(''rsi'', CacheOk rsiSchema)],
           trace = [ProbeWidget, CallGetStudyInputs ''  rsi ''] \<rparr> ''RSI'' =
       (Fulfilled rsiSchema,
        \<lparr> cache = [(''rsi'', CacheOk rsiSchema)],
          trace = [ProbeWidget, CallGetStudyInputs ''  rsi ''] \<rparr>)"
proof -
  have first: "getStudySchema (readyEnv (Some sampleWidget)) emptyState ''  rsi '' =
     (Fulfilled rsiSchema,
      \<lparr> cache = [(''rsi'', CacheOk rsiSchema)],
        trace = [ProbeWidget, CallGetStudyInputs ''  rsi ''] \<rparr>)"
    by (simp add: run_defs keyOf_rsi_padded)
  have key: "keyOf ''RSI'' = keyOf ''  rsi ''"
    by (simp add: keyOf_RSI keyOf_rsi_padded)
  from getStudySchema_second_call_cached[OF first key, of "readyEnv None"] first key
  show ?thesis by simp
qed

text \<open>
  C3. The claim: a failed fetch for \<open>S\<close> is cached under the normalized key of \<open>S\<close>, and
  every later call for \<open>S\<close> throws the recorded message without asking the widget again.
  The code does not keep it when the failure comes from the normalization, which runs after
  the \<open>try\<close> block: for a widget whose accessor returns an array holding \<open>null\<close>, the first
  call is rejected with a \<open>TypeError\<close> and leaves the cache empty, and the second call
  probes and queries the widget once more.
\<close>

theorem getStudySchema_uncached_failure:
  "getStudySchema (readyEnv (Some nullElementWidget)) emptyState ''RSI'' =
     (Rejected (cannotRead ''null''),
      \<lparr> cache = [], trace = [ProbeWidget, CallGetStudyInputs ''RSI''] \<rparr>)
   \<and> getStudySchema (readyEnv (Some nullElementWidget))
         \<lparr> cache = [], trace = [ProbeWidget, CallGetStudyInputs ''RSI''] \<rparr> ''RSI'' =
       (Rejected (cannotRead ''null''),
        \<lparr> cache = [],
          trace = [ProbeWidget, CallGetStudyInputs ''RSI'',
                   ProbeWidget, CallGetStudyInputs ''RSI''] \<rparr>)"
  by (simp add: run_defs keyOf_RSI)

text \<open>
  The two failures the function itself raises are kept: whenever a rejected call leaves an
  entry under the key, that entry is the rejection's message, and later calls with that key
  are rejected with it and leave the state alone. An accessor that throws is such a case.
\<close>

lemma cached_failure_repeats:
  assumes "getStudySchema e st S = (Rejected m, st')" and "keyOf S' = keyOf S"
    and "map_of (cache st') (keyOf S) \<noteq> None"
  shows "map_of (cache st') (keyOf S) = Some (CacheErr m)
       \<and> getStudySchema e' st' S' = (Rejected m, st')"
proof -
  have "map_of (cache st') (keyOf S) = Some (CacheErr m)"
  proof (cases "getStudySchema_cached st S")
    case None
    then have miss: "map_of (cache st) (keyOf S) = None"
      by (simp add: getStudySchema_cached_def split: option.splits CacheEntry.splits)
    from rejected_cached_or_untouched[OF assms(1)] miss assms(3) show ?thesis by auto
  next
    case (Some r)
    with assms(1) have "settled r = Rejected m" "st' = st"
      by (auto simp: getStudySchema_def)
    then have "r = Throws m" by (cases r) auto
    with Some \<open>st' = st\<close> show ?thesis
      by (auto simp: getStudySchema_cached_def split: option.splits CacheEntry.splits)
  qed
  with assms(2) show ?thesis by (simp add: hit_err)
qed

lemma accessor_failure_is_cached:
  "getStudySchema (readyEnv (Some sampleWidget)) emptyState ''BADSTUDY'' =
     (Rejected (failedMessage ''BADSTUDY'' ''unknown study''),
      \<lparr> cache = [(''badstudy'', CacheErr (failedMessage ''BADSTUDY'' ''unknown study''))],
        trace = [ProbeWidget, CallGetStudyInputs ''BADSTUDY''] \<rparr>)"
  by (simp add: run_defs keyOf_BADSTUDY)


section \<open>Failures for want of a widget\<close>

text \<open>
  C9. When the gate is resolved, no widget is to be found and nothing is cached for \<open>S\<close>,
  \<open>getStudySchema(S)\<close> is rejected with \<open>TradingView widget not available\<close> and that
  message becomes the cache entry of the normalized key. Every later call for a name with
  that key is rejected with it and leaves the state alone, whatever the environment then
  is (a widget may have appeared): the widget is not probed. Once the entry has been cleared
  (for that study, or the whole cache), the next call with the gate resolved probes the
  widget again.
\<close>

theorem getStudySchema_unavailable_cached:
  assumes "ready e" and "getWidget (window e) = None" and "map_of (cache st) (keyOf S) = None"
  shows "fst (getStudySchema e st S) = Rejected ''TradingView widget not available''
    \<and> map_of (cache (snd (getStudySchema e st S))) (keyOf S) =
          Some (CacheErr ''TradingView widget not available'')
    \<and> (\<forall>e' S'. keyOf S' = keyOf S \<longrightarrow>
          getStudySchema e' (snd (getStudySchema e st S)) S' =
            (Rejected ''TradingView widget not available'', snd (getStudySchema e st S)))
    \<and> (\<forall>e' x. ready e' \<and> (x = None \<or> x = Some S) \<longrightarrow>
          prefix (trace (snd (getStudySchema e st S)) @ [ProbeWidget])
            (trace (snd (getStudySchema e'
                (clearStudyCache x (snd (getStudySchema e st S))) S))))"
proof -
  let ?m = "''TradingView widget not available''"
  obtain st' where st': "snd (getStudySchema e st S) = st'" by simp
  have r: "getStudySchema e st S = (Rejected ?m, st')"
    using assms st'
    by (auto simp: getStudySchema_def getStudySchema_cached_def getStudySchema_fetch_def Let_def)
  have "getStudySchema_fetch e st S =
          (Throws ?m, cacheSet (keyOf S) (CacheErr ?m) (logEvents [ProbeWidget] st))"
    using assms(2) by (simp add: getStudySchema_fetch_def Let_def)
  with miss_fetches[OF assms(3,1)] st'
  have "st' = cacheSet (keyOf S) (CacheErr ?m) (logEvents [ProbeWidget] st)"
    by simp
  then have c: "map_of (cache st') (keyOf S) = Some (CacheErr ?m)"
    by (simp add: cacheSet_def AList.update_conv')
  have again: "getStudySchema e' st' S' = (Rejected ?m, st')" if "keyOf S' = keyOf S" for e' S'
    using c that by (simp add: hit_err)
  have re: "prefix (trace st' @ [ProbeWidget])
              (trace (snd (getStudySchema e' (clearStudyCache x st') S)))"
    if "ready e'" "x = None \<or> x = Some S" for e' x
  proof -
    from that(2) have "map_of (cache (clearStudyCache x st')) (keyOf S) = None"
      by (auto simp: clear_removes)
    from miss_fetches[OF this that(1)] fetch_probes[of "clearStudyCache x st'" e' S]
    show ?thesis by (simp add: clear_trace)
  qed
  from r c again re show ?thesis by (simp add: st')
qed

theorem getStudySchema_unavailable_cached_witness:
  "ready (readyEnv None) \<and> getWidget (window (readyEnv None)) = None
   \<and> map_of (cache emptyState) (keyOf ''RSI'') = None
   \<and> getStudySchema (readyEnv None) emptyState ''RSI'' =
       (Rejected ''TradingView widget not available'',
        \<lparr> cache = [(''rsi'', CacheErr ''TradingView widget not available'')],
          trace = [ProbeWidget] \<rparr>)
   \<and> getStudySchema (readyEnv (Some sampleWidget))
         \<lparr> cache = [(''rsi'', CacheErr ''TradingView widget not available'')],
           trace = [ProbeWidget] \<rparr> ''  rsi '' =
       (Rejected ''TradingView widget not available'',
        \<lparr> cache = [(''rsi'', CacheErr ''TradingView widget not available'')],
          trace = [ProbeWidget] \<rparr>)
   \<and> prefix [ProbeWidget, ProbeWidget]
        (trace (snd (getStudySchema (readyEnv (Some sampleWidget))
           (clearStudyCache (Some ''RSI'')
              \<lparr> cache = [(''rsi'', CacheErr ''TradingView widget not available'')],
                trace = [ProbeWidget] \<rparr>) ''RSI'')))"
proof -
  have h1: "ready (readyEnv None)" by (simp add: readyEnv_def)
  have h2: "getWidget (window (readyEnv None)) = None" by (simp add: readyEnv_def getWidget_def)
  have h3: "map_of (cache emptyState) (keyOf ''RSI'') = None" by (simp add: emptyState_def)
  have ev: "getStudySchema (readyEnv None) emptyState ''RSI'' =
       (Rejected ''TradingView widget not available'',
        \<lparr> cache = [(''rsi'', CacheErr ''TradingView widget not available'')],
          trace = [ProbeWidget] \<rparr>)"
    by (simp add: run_defs keyOf_RSI)
  have k: "keyOf ''  rsi '' = keyOf ''RSI''" by (simp add: keyOf_RSI keyOf_rsi_padded)
  have r: "ready (readyEnv (Some sampleWidget))" by (simp add: readyEnv_def)
  note t = getStudySchema_unavailable_cached[OF h1 h2 h3]
  from t have a: "getStudySchema (readyEnv (Some sampleWidget))
                  (snd (getStudySchema (readyEnv None) emptyState ''RSI'')) ''  rsi '' =
            (Rejected ''TradingView widget not available'',
             snd (getStudySchema (readyEnv None) emptyState ''RSI''))"
    using k by blast
  from t have b: "prefix (trace (snd (getStudySchema (readyEnv None) emptyState ''RSI'')) @ [ProbeWidget])
            (trace (snd (getStudySchema (readyEnv (Some sampleWidget))
                (clearStudyCache (Some ''RSI'') (snd (getStudySchema (readyEnv None) emptyState ''RSI''))) ''RSI'')))"
    using r by blast
  from a b h1 h2 h3 ev show ?thesis by simp
qed

section \<open>A widget without accessor\<close>

text \<open>
  C10. On a cache miss with the gate resolved, a widget that has no \<open>getStudyInputs\<close>
  function and whose \<open>activeChart\<close> is missing, or returns nothing, or returns a chart without
  \<open>getStudyInputs\<close>, makes \<open>getStudySchema(S)\<close> succeed with a schema of no inputs; the
  schema is cached as a success, so \<open>hasStudy(S)\<close> holds afterwards.
\<close>

theorem getStudySchema_no_accessor_succeeds:
  assumes "ready e" and "getWidget (window e) = Some w"
    and "widget_getStudyInputs w = None"
    and "widget_activeChart w = None \<or> widget_activeChart w = Some (Returns None)
         \<or> (\<exists>ch. widget_activeChart w = Some (Returns (Some ch)) \<and> chart_getStudyInputs ch = None)"
    and "map_of (cache st) (keyOf S) = None"
  shows "fst (getStudySchema e st S) = Fulfilled \<lparr> schema_name = S, schema_inputs = [] \<rparr>
       \<and> map_of (cache (snd (getStudySchema e st S))) (keyOf S) =
           Some (CacheOk \<lparr> schema_name = S, schema_inputs = [] \<rparr>)
       \<and> hasStudy (snd (getStudySchema e st S)) S"
proof -
  obtain r st2 where fi: "fetchInputs w S (logEvents [ProbeWidget] st) = (r, st2)"
    by (cases "fetchInputs w S (logEvents [ProbeWidget] st)")
  have "fst (fetchInputs w S (logEvents [ProbeWidget] st)) = Returns RawUndefined"
    using assms(3,4) by (auto simp: fetchInputs_def)
  with fi have r: "r = Returns RawUndefined" by simp
  have f: "fst (getStudySchema_fetch e st S) = Returns \<lparr> schema_name = S, schema_inputs = [] \<rparr>"
    using assms(2) fi r
    by (simp add: getStudySchema_fetch_def Let_def normalizeInputs_def)
  have fg: "fst (getStudySchema e st S) = Fulfilled \<lparr> schema_name = S, schema_inputs = [] \<rparr>"
    using miss_fetches[OF assms(5,1)] f by simp
  then have g: "getStudySchema e st S =
      (Fulfilled \<lparr> schema_name = S, schema_inputs = [] \<rparr>, snd (getStudySchema e st S))"
    by (cases "getStudySchema e st S") simp
  have c: "map_of (cache (snd (getStudySchema e st S))) (keyOf S) =
           Some (CacheOk \<lparr> schema_name = S, schema_inputs = [] \<rparr>)"
    by (rule fulfilled_cached[OF g])
  then have "hasStudy (snd (getStudySchema e st S)) S"
    by (simp add: hasStudy_def)
  with fg c show ?thesis by blast
qed

theorem getStudySchema_no_accessor_succeeds_witness:
  "ready (readyEnv (Some bareWidget)) \<and> getWidget (window (readyEnv (Some bareWidget))) = Some bareWidget
   \<and> widget_getStudyInputs bareWidget = None \<and> widget_activeChart bareWidget = None
   \<and> map_of (cache emptyState) (keyOf ''RSI'') = None
   \<and> fst (getStudySchema (readyEnv (Some bareWidget)) emptyState ''RSI'') =
        Fulfilled \<lparr> schema_name = ''RSI'', schema_inputs = [] \<rparr>
   \<and> hasStudy (snd (getStudySchema (readyEnv (Some bareWidget)) emptyState ''RSI'')) ''RSI''"
proof -
  have h1: "ready (readyEnv (Some bareWidget))" by (simp add: readyEnv_def)
  have h2: "getWidget (window (readyEnv (Some bareWidget))) = Some bareWidget"
    by (simp add: readyEnv_def getWidget_def)
  have h3: "widget_getStudyInputs bareWidget = None" by (simp add: bareWidget_def)
  have h4: "widget_activeChart bareWidget = None" by (simp add: bareWidget_def)
  have h4': "widget_activeChart bareWidget = None \<or> widget_activeChart bareWidget = Some (Returns None)
         \<or> (\<exists>ch. widget_activeChart bareWidget = Some (Returns (Some ch)) \<and> chart_getStudyInputs ch = None)"
    using h4 by simp
  have h5: "map_of (cache emptyState) (keyOf ''RSI'') = None" by (simp add: emptyState_def)
  from getStudySchema_no_accessor_succeeds[OF h1 h2 h3 h4' h5] h1 h2 h3 h4 h5 show ?thesis by simp
qed

section \<open>Normalization of the raw result\<close>

text \<open>
  C4. The claim: a non-array result becomes an empty sequence, every missing field of an
  element defaults to the empty string, the \<open>id\<close> too, and \<open>localizedName\<close> falls back to
  \<open>name\<close>. The code gives \<open>name\<close>, \<open>localizedName\<close> and \<open>type\<close> their defaults but
  converts \<open>i.id\<close> as it stands: for an element that has no \<open>id\<close> the schema carries the
  text \<open>undefined\<close> as id, not the empty string.
\<close>

theorem getStudySchema_missing_id_gives_undefined:
  "getStudySchema (readyEnv (Some noIdWidget)) emptyState ''RSI'' =
     (Fulfilled \<lparr> schema_name = ''RSI'',
                  schema_inputs = [\<lparr> input_id = ''undefined'', input_name = ''Length'',
                                     input_localizedName = ''Length'', input_type = ''integer'' \<rparr>] \<rparr>,
      \<lparr> cache = [(''rsi'', CacheOk \<lparr> schema_name = ''RSI'',
                  schema_inputs = [\<lparr> input_id = ''undefined'', input_name = ''Length'',
                                     input_localizedName = ''Length'', input_type = ''integer'' \<rparr>] \<rparr>)],
        trace = [ProbeWidget, CallGetStudyInputs ''RSI''] \<rparr>)
   \<and> ''undefined'' \<noteq> ([] :: string)"
  by (simp add: run_defs keyOf_RSI)

text \<open>
  What the normalization does do: a result that is not an array gives no inputs; of an
  object, \<open>name\<close> and \<open>type\<close> are its strings or empty when missing, \<open>localizedName\<close> is
  its string or else the normalized \<open>name\<close>, and \<open>id\<close> is the \<open>String\<close> conversion of
  whatever is there; an array of objects gives one input for each, in order.
\<close>

lemma normalizeInputs_non_array:
  assumes "\<forall>xs. raw \<noteq> RawArray xs"
  shows "normalizeInputs raw = Returns []"
  using assms by (cases raw) (simp_all add: normalizeInputs_def)

lemma normalizeInput_object:
  assumes "normalizeInput (ElemObject i) = Returns y"
  shows "input_name y = (case raw_name i of JString s \<Rightarrow> s | _ \<Rightarrow> [])
       \<and> input_type y = (case raw_type i of JString s \<Rightarrow> s | _ \<Rightarrow> [])
       \<and> input_localizedName y =
            (case raw_localizedName i of JString s \<Rightarrow> s | _ \<Rightarrow> input_name y)
       \<and> input_id y = String_of (raw_id i)"
  using assms
  by (cases "raw_name i"; cases "raw_type i"; cases "raw_localizedName i") auto

lemma mapInputs_objects:
  "\<exists>ys. mapInputs (map ElemObject xs) = Returns ys \<and> length ys = length xs
        \<and> (\<forall>k<length xs. normalizeInput (ElemObject (xs ! k)) = Returns (ys ! k))"
proof (induction xs)
  case Nil
  show ?case by simp
next
  case (Cons x xs)
  then obtain ys where ys: "mapInputs (map ElemObject xs) = Returns ys" "length ys = length xs"
    "\<forall>k<length xs. normalizeInput (ElemObject (xs ! k)) = Returns (ys ! k)"
    by blast
  obtain y where y: "normalizeInput (ElemObject x) = Returns y" by simp
  have "\<forall>k<length (x # xs). normalizeInput (ElemObject ((x # xs) ! k)) = Returns ((y # ys) ! k)"
  proof (intro allI impI)
    fix k assume "k < length (x # xs)"
    then show "normalizeInput (ElemObject ((x # xs) ! k)) = Returns ((y # ys) ! k)"
      using y ys(3) by (cases k) simp_all
  qed
  with y ys(1,2) show ?case by simp
qed

lemma fetch_normalized:
  assumes "ready e" and "map_of (cache st) (keyOf S) = None"
    and "getWidget (window e) = Some w"
    and "fst (fetchInputs w S (logEvents [ProbeWidget] st)) = Returns raw"
    and "normalizeInputs raw = Returns inputs"
  shows "fst (getStudySchema e st S) = Fulfilled \<lparr> schema_name = S, schema_inputs = inputs \<rparr>"
proof -
  obtain r st2 where fi: "fetchInputs w S (logEvents [ProbeWidget] st) = (r, st2)"
    by (cases "fetchInputs w S (logEvents [ProbeWidget] st)")
  with assms(4) have r: "r = Returns raw" by simp
  have "fst (getStudySchema_fetch e st S) = Returns \<lparr> schema_name = S, schema_inputs = inputs \<rparr>"
    using assms(3,5) fi r by (simp add: getStudySchema_fetch_def Let_def)
  with miss_fetches[OF assms(2,1)] show ?thesis by simp
qed


section \<open>Clearing one study\<close>

text \<open>
  C7. For every cache state and every non-empty study name \<open>S\<close>, \<open>clearStudyCache(S)\<close> removes
  the entry under the normalized key of \<open>S\<close> and nothing else: every other key keeps its
  entry, the order of the remaining entries and the widget trace are untouched, and so
  \<open>hasStudy(O)\<close> is still true afterwards for every \<open>O\<close> with a different normalized key
  that was cached successfully before.
\<close>

theorem clearStudyCache_single_frame:
  assumes "S \<noteq> []"
  shows "map_of (cache (clearStudyCache (Some S) st)) (keyOf S) = None
       \<and> cache (clearStudyCache (Some S) st) = filter (\<lambda>p. fst p \<noteq> keyOf S) (cache st)
       \<and> trace (clearStudyCache (Some S) st) = trace st
       \<and> (\<forall>O'. keyOf O' \<noteq> keyOf S \<longrightarrow>
            map_of (cache (clearStudyCache (Some S) st)) (keyOf O') = map_of (cache st) (keyOf O')
          \<and> (hasStudy st O' \<longrightarrow> hasStudy (clearStudyCache (Some S) st) O'))"
proof -
  let ?st = "clearStudyCache (Some S) st"
  have c: "cache ?st = AList.delete (keyOf S) (cache st)" and t: "trace ?st = trace st"
    using assms by (simp_all add: clearStudyCache_def)
  have gone: "map_of (cache ?st) (keyOf S) = None"
    by (simp add: c AList.delete_conv)
  have flt: "cache ?st = filter (\<lambda>p. fst p \<noteq> keyOf S) (cache st)"
    unfolding c by (rule delete_as_filter)
  have other: "map_of (cache ?st) k = map_of (cache st) k" if "k \<noteq> keyOf S" for k
    using that by (simp add: c AList.delete_conv)
  have "hasStudy ?st O'" if "keyOf O' \<noteq> keyOf S" "hasStudy st O'" for O'
    using that by (simp add: hasStudy_def other)
  with gone flt t other show ?thesis by blast
qed

theorem clearStudyCache_single_frame_witness:
  "''RSI'' \<noteq> [] \<and> keyOf ''MACD'' \<noteq> keyOf ''RSI''
   \<and> hasStudy \<lparr> cache = [(''rsi'', CacheOk rsiSchema), (''macd'', CacheOk rsiSchema)],
                  trace = [] \<rparr> ''MACD''
   \<and> hasStudy (clearStudyCache (Some ''RSI'')
        \<lparr> cache = [(''rsi'', CacheOk rsiSchema), (''macd'', CacheOk rsiSchema)],
          trace = [] \<rparr>) ''MACD''
   \<and> \<not> hasStudy (clearStudyCache (Some ''RSI'')
        \<lparr> cache = [(''rsi'', CacheOk rsiSchema), (''macd'', CacheOk rsiSchema)],
          trace = [] \<rparr>) ''RSI''"
proof -
  have ne: "''RSI'' \<noteq> []" by simp
  have key: "keyOf ''MACD'' \<noteq> keyOf ''RSI''"
    by (simp add: keyOf_MACD keyOf_RSI)
  have before: "hasStudy \<lparr> cache = [(''rsi'', CacheOk rsiSchema), (''macd'', CacheOk rsiSchema)],
                  trace = [] \<rparr> ''MACD''"
    by (simp add: hasStudy_def keyOf_MACD)
  from clearStudyCache_single_frame[OF ne,
      of "\<lparr> cache = [(''rsi'', CacheOk rsiSchema), (''macd'', CacheOk rsiSchema)], trace = [] \<rparr>"]
    key before
  show ?thesis by (simp add: hasStudy_def keyOf_MACD keyOf_RSI)
qed

section \<open>Searching the cache\<close>

text \<open>
  C6. \<open>searchCachedInputs\<close> is the scan the specification describes: it goes through the
  cache in order, skips error entries (dropping them from the cache changes nothing), and
  reports the inputs of a successful entry whose study name, or whose own name, localized
  name or id, contains the trimmed query, compared in lower case, so that two queries that
  differ in case only give the same hits. For the empty query it returns every input of
  every successfully cached study.
\<close>

theorem searchCachedInputs_scan:
  "searchCachedInputs st query = spec_searchCachedInputs st query
   \<and> searchCachedInputs st [] = spec_allCachedInputs st
   \<and> searchCachedInputs (st\<lparr>cache := filter (\<lambda>p. isOk (snd p)) (cache st)\<rparr>) query =
       searchCachedInputs st query
   \<and> (toLowerCase query' = toLowerCase query \<longrightarrow>
        searchCachedInputs st query' = searchCachedInputs st query)"
proof -
  have a: "searchCachedInputs st q = spec_searchCachedInputs st q" for st q
    by (simp add: searchCachedInputs_def spec_searchCachedInputs_def scanCache_eq)
  have b: "spec_searchCachedInputs st [] = spec_allCachedInputs st"
    by (simp add: spec_searchCachedInputs_def spec_allCachedInputs_def entryHits_empty
          trim_def toLowerCase_def)
  have c: "spec_searchCachedInputs (st\<lparr>cache := filter (\<lambda>p. isOk (snd p)) (cache st)\<rparr>) query =
        spec_searchCachedInputs st query"
    by (simp add: spec_searchCachedInputs_def concat_skip_errors)
  have d: "searchCachedInputs st query' = searchCachedInputs st query"
    if "toLowerCase query' = toLowerCase query"
  proof -
    have "toLowerCase (trim query') = toLowerCase (trim query)"
      using that by (simp add: trim_lower[symmetric])
    then show ?thesis by (simp add: searchCachedInputs_def)
  qed
  from a b c d show ?thesis by simp
qed

theorem searchCachedInputs_scan_witness:
  "toLowerCase '' Fast'' = toLowerCase '' fast''
   \<and> searchCachedInputs cachedExample '' Fast'' = searchCachedInputs cachedExample '' fast''
   \<and> searchCachedInputs cachedExample '' fast'' =
       [\<lparr> hit_study = ''MACD'', hit_input = lengthInfo\<lparr>input_id := ''fast''\<rparr> \<rparr>]
   \<and> searchCachedInputs cachedExample [] =
       [\<lparr> hit_study = ''RSI'', hit_input = lengthInfo \<rparr>,
        \<lparr> hit_study = ''MACD'', hit_input = lengthInfo\<lparr>input_id := ''fast''\<rparr> \<rparr>]"
proof -
  have h: "toLowerCase '' Fast'' = toLowerCase '' fast''" by code_simp
  have all: "spec_allCachedInputs cachedExample =
       [\<lparr> hit_study = ''RSI'', hit_input = lengthInfo \<rparr>,
        \<lparr> hit_study = ''MACD'', hit_input = lengthInfo\<lparr>input_id := ''fast''\<rparr> \<rparr>]"
    by (simp add: spec_allCachedInputs_def cachedExample_def)
  have one: "searchCachedInputs cachedExample '' fast'' =
       [\<lparr> hit_study = ''MACD'', hit_input = lengthInfo\<lparr>input_id := ''fast''\<rparr> \<rparr>]"
    by code_simp
  from searchCachedInputs_scan[of cachedExample "'' Fast''" "'' fast''"] h all one
  show ?thesis by simp
qed

section \<open>Clearing the applied-entity tables\<close>

text \<open>
  C8. With the gate resolved and a chart registered, each of \<open>clearAllIndicators\<close>,
  \<open>clearAllPatterns\<close> and \<open>clearAllPriceTargets\<close> completes without an error, whatever
  \<open>removeEntity\<close> throws: it has called \<open>removeEntity\<close> once for every entry of its table,
  in table order, has written one message to the console for each entry whose removal
  threw, and leaves that table empty.
\<close>

theorem clearAll_attempts_all_and_empties:
  assumes "ready e" and "chartRef b = Some ch"
  shows "fst (clearAllIndicators e b) = Fulfilled ()
    \<and> appliedIndicators (snd (clearAllIndicators e b)) = []
    \<and> removeEntityCalls (snd (clearAllIndicators e b)) =
          removeEntityCalls b @ map snd (appliedIndicators b)
    \<and> consoleErrors (snd (clearAllIndicators e b)) =
          consoleErrors b @
            map (\<lambda>p. ''Failed to remove indicator '' @ fst p @ '':'')
              (filter (\<lambda>p. removeEntity ch (snd p) \<noteq> Returns ()) (appliedIndicators b))
    \<and> fst (clearAllPatterns e b) = Fulfilled ()
    \<and> appliedPatterns (snd (clearAllPatterns e b)) = []
    \<and> removeEntityCalls (snd (clearAllPatterns e b)) =
          removeEntityCalls b @ map snd (appliedPatterns b)
    \<and> consoleErrors (snd (clearAllPatterns e b)) =
          consoleErrors b @
            map (\<lambda>p. ''Failed to remove pattern '' @ fst p @ '':'')
              (filter (\<lambda>p. removeEntity ch (snd p) \<noteq> Returns ()) (appliedPatterns b))
    \<and> fst (clearAllPriceTargets e b) = Fulfilled ()
    \<and> appliedPriceTargets (snd (clearAllPriceTargets e b)) = []
    \<and> removeEntityCalls (snd (clearAllPriceTargets e b)) =
          removeEntityCalls b @ map snd (appliedPriceTargets b)
    \<and> consoleErrors (snd (clearAllPriceTargets e b)) =
          consoleErrors b @
            map (\<lambda>p. ''Failed to remove price target '' @ fst p @ '':'')
              (filter (\<lambda>p. removeEntity ch (snd p) \<noteq> Returns ()) (appliedPriceTargets b))"
  using assms
  by (simp add: clearAllIndicators_def clearAllPatterns_def clearAllPriceTargets_def
        removeEach_calls removeEach_errors)

theorem clearAll_attempts_all_and_empties_witness:
  "ready (readyEnv None) \<and> chartRef bridgeExample = Some stubbornChart
   \<and> removeEntity stubbornChart ''h2'' = Throws ''no such entity''
   \<and> clearAllIndicators (readyEnv None) bridgeExample =
       (Fulfilled (),
        bridgeExample\<lparr> appliedIndicators := [], removeEntityCalls := [''h1'', ''h2'', ''h3''],
                         consoleErrors := [''Failed to remove indicator MACD:''] \<rparr>)
   \<and> appliedPatterns (snd (clearAllPatterns (readyEnv None) bridgeExample)) = []
   \<and> appliedPriceTargets (snd (clearAllPriceTargets (readyEnv None) bridgeExample)) = []"
proof -
  have h1: "ready (readyEnv None)" by (simp add: readyEnv_def)
  have h2: "chartRef bridgeExample = Some stubbornChart" by (simp add: bridgeExample_def)
  have h3: "removeEntity stubbornChart ''h2'' = Throws ''no such entity''"
    by (simp add: stubbornChart_def)
  have ev: "clearAllIndicators (readyEnv None) bridgeExample =
       (Fulfilled (),
        bridgeExample\<lparr> appliedIndicators := [], removeEntityCalls := [''h1'', ''h2'', ''h3''],
                         consoleErrors := [''Failed to remove indicator MACD:''] \<rparr>)"
    by (simp add: clearAllIndicators_def readyEnv_def bridgeExample_def stubbornChart_def Let_def)
  from clearAll_attempts_all_and_empties[OF h1 h2] h1 h2 h3 ev show ?thesis by simp
qed

section \<open>The prefetch summary\<close>

text \<open>
  C1. The claim: for every list of \<open>N\<close> names and every \<open>concurrency\<close> from 1 to \<open>N\<close>,
  \<open>prefetchStudySchemas\<close> returns a summary with \<open>total\<close> equal to \<open>N\<close> and
  \<open>success.length + failed.length\<close> equal to \<open>N\<close>, and never throws. The code does throw:
  \<open>opts.onProgress?.(done, total, current)\<close> stands unguarded in the \<open>finally\<close> block, so
  what the callback throws leaves the worker and \<open>Promise.all\<close> rejects. For three names,
  two workers and a callback that throws, the call is rejected with the callback's message
  and returns no summary.
\<close>

theorem prefetchStudySchemas_rejects_when_onProgress_throws:
  "map_option fst
     (prefetchStudySchemas (readyEnv (Some sampleWidget)) [0, 1, 0, 1, 0, 1, 0, 1, 0]
        emptyState [''RSI'', ''MACD'', ''BADSTUDY'']
        \<lparr> concurrency = Some (Num 2),
          onProgress = Some (\<lambda>d t name. Throws ''boom'') \<rparr>) =
     Some (Rejected ''boom'')"
  apply (simp only: prefetchStudySchemas_def prefetchStart_def list.size One_nat_def
           add_Suc_right add_0_right)
  apply (simp only: numeral_3_eq_3[symmetric] workerCount_two_of_three)
  apply code_simp
  done

text \<open>
  With a progress callback that is absent or returns, the readiness gate resolved and a
  \<open>concurrency\<close> that is not \<open>NaN\<close>, the summary is as the claim says, for every list of
  names and every order in which the event loop resumes the workers: \<open>total\<close> is the number
  of names, \<open>success.length + failed.length\<close> as well, and the names recorded in \<open>success\<close>
  and \<open>failed\<close> are, with multiplicity, exactly the names given, so each name was taken by
  one worker and recorded once. What is recorded follows the fetch: a name in \<open>success\<close>
  was cached as a success under its key before the call, or fetching a given name with that
  key succeeds; an item in \<open>failed\<close> carries the message that was cached under the key
  before the call, or the one that fetching a given name with that key throws. A schedule
  of three steps for each name is long enough for the run to end.
\<close>

lemma prefetch_summary_when_quiet:
  assumes "ready e" and "quietProgress opts" and "3 * length studies \<le> length sched"
    and "concurrency opts \<noteq> Some NaN"
  shows "case prefetchStudySchemas e sched st studies opts of
           Some (Fulfilled s, c') \<Rightarrow>
             total s = length studies
           \<and> length (success s) + length (failed s) = length studies
           \<and> mset (success s) + mset (map failure_name (failed s)) = mset studies
           \<and> (\<forall>n \<in> set (success s). \<exists>schema. accounted e st studies n (Returns schema))
           \<and> (\<forall>f \<in> set (failed s).
                 accounted e st studies (failure_name f) (Throws (failure_error f)))
         | _ \<Rightarrow> False"
proof -
  let ?c0 = "\<lparr> idx = 0, doneCount = 0,
         result = \<lparr> total = length studies, success = [], failed = [] \<rparr>,
         workers = [], module = st, progressCalls = [] \<rparr>"
  let ?n = "workerCount opts (length studies)"
  have i0: "prefetch_inv studies ?c0"
    by (simp add: prefetch_inv_def recorded_def inFlight_def)
  have r0: "remaining studies ?c0 = 3 * length studies"
    by (simp add: remaining_def)
  from spawn_ok[OF i0, of ?n] r0
  have s: "prefetch_inv studies (prefetchStart st studies opts)"
    "remaining studies (prefetchStart st studies opts) \<le> 3 * length studies"
    "length (workers (prefetchStart st studies opts)) = ?n"
    by (simp_all add: prefetchStart_def)
  from s(2) assms(3) have "remaining studies (prefetchStart st studies opts) \<le> length sched"
    by simp
  from run_ok[OF s(1) assms(2,1) this] s(3)
  obtain c' where c': "prefetchStudySchemas e sched st studies opts = Some (Fulfilled (result c'), c')"
    "prefetch_inv studies c'" "list_all (\<lambda>w. w = Finished) (workers c')"
    "length (workers c') = ?n"
    by (auto simp: prefetchStudySchemas_def)
  have "0 < length studies \<Longrightarrow> 0 < ?n"
    by (rule workerCount_positive[OF assms(4)])
  then have "?n = 0 \<longrightarrow> length studies = 0"
    by (cases "0 < length studies") simp_all
  with c'(4) have "workers c' = [] \<longrightarrow> studies = []"
    by auto
  from finished_summary[OF c'(2,3) this]
  have counts: "total (result c') = length studies
       \<and> length (success (result c')) + length (failed (result c')) = length studies
       \<and> mset (success (result c')) + mset (map failure_name (failed (result c'))) = mset studies" .
  have p0: "prefetch_prov e st studies ?c0"
    by (simp add: prefetch_prov_def)
  have ps: "prefetch_prov e st studies (prefetchStart st studies opts)"
    unfolding prefetchStart_def by (rule spawn_prov[OF p0]) simp
  from c'(1) have "run e opts studies sched (prefetchStart st studies opts) =
                     Some (Fulfilled (result c'), c')"
    by (simp add: prefetchStudySchemas_def)
  from run_prov[OF this s(1) assms(2) ps] have "prefetch_prov e st studies c'" .
  then have prov: "(\<forall>n \<in> set (success (result c')).
           \<exists>schema. accounted e st studies n (Returns schema))
       \<and> (\<forall>f \<in> set (failed (result c')).
             accounted e st studies (failure_name f) (Throws (failure_error f)))"
    by (simp add: prefetch_prov_def)
  from counts prov c'(1) show ?thesis by simp
qed

lemma prefetch_example_run:
  "map_option fst
     (prefetchStudySchemas (readyEnv (Some sampleWidget)) [0, 1, 0, 1, 0, 1, 0, 1, 0]
        emptyState [''RSI'', ''MACD'', ''BADSTUDY'']
        \<lparr> concurrency = Some (Num 2), onProgress = None \<rparr>) =
   Some (Fulfilled \<lparr> total = 3, success = [''RSI'', ''MACD''],
          failed = [\<lparr> failure_name = ''BADSTUDY'',
                      failure_error = failedMessage ''BADSTUDY'' ''unknown study'' \<rparr>] \<rparr>)"
  apply (simp only: prefetchStudySchemas_def prefetchStart_def list.size One_nat_def
           add_Suc_right add_0_right)
  apply (simp only: numeral_3_eq_3[symmetric] workerCount_two_of_three)
  apply code_simp
  done

text \<open>With the gate unresolved and nothing cached the call never returns; with \<open>NaN\<close> for
  \<open>concurrency\<close> no worker is started and the summary lists no name at all.\<close>

lemma prefetch_waits_for_gate:
  "map_option fst
     (prefetchStudySchemas ((readyEnv (Some sampleWidget))\<lparr>ready := False\<rparr>) []
        emptyState [''RSI'', ''MACD'', ''BADSTUDY'']
        \<lparr> concurrency = Some (Num 2), onProgress = None \<rparr>) = Some Pending"
  apply (simp only: prefetchStudySchemas_def prefetchStart_def list.size One_nat_def
           add_Suc_right add_0_right)
  apply (simp only: numeral_3_eq_3[symmetric] workerCount_two_of_three)
  apply code_simp
  done

lemma prefetch_NaN_starts_no_worker:
  "map_option fst
     (prefetchStudySchemas (readyEnv (Some sampleWidget)) []
        emptyState [''RSI'', ''MACD'', ''BADSTUDY'']
        \<lparr> concurrency = Some NaN, onProgress = None \<rparr>) =
   Some (Fulfilled \<lparr> total = 3, success = [], failed = [] \<rparr>)"
  apply (simp only: prefetchStudySchemas_def prefetchStart_def list.size One_nat_def
           add_Suc_right add_0_right)
  apply (simp only: numeral_3_eq_3[symmetric] workerCount_NaN_of_three)
  apply code_simp
  done


section \<open>Number of workers\<close>

text \<open>
  C5, as the claim has it, fails for a \<open>concurrency\<close> that is not a whole number: with
  \<open>2.5\<close> and three names \<open>min(max(1, c0), N)\<close> is \<open>2.5\<close>, and two workers are started,
  since \<open>Array.from\<close> cuts the length down to a whole number.
\<close>

theorem prefetch_worker_count_fraction:
  "length (workers (prefetchStart emptyState [''RSI'', ''MACD'', ''BADSTUDY'']
      \<lparr> concurrency = Some (Num (5 / 2)), onProgress = None \<rparr>)) = 2
   \<and> min (max 1 (5 / 2)) (of_nat (length [''RSI'', ''MACD'', ''BADSTUDY''])) = (5 / 2 :: rat)
   \<and> (of_nat 2 :: rat) \<noteq> 5 / 2"
  by (simp add: prefetchStart_def spawn_length workerCount_def effectiveConcurrency_def
        floor_five_halves)

text \<open>
  C5, amended. \<open>prefetchStudySchemas\<close> starts as many workers as the whole part of
  \<open>min(max(1, c0), N)\<close>, where \<open>c0\<close> is the \<open>concurrency\<close> option, 8 when it is not given,
  and \<open>N\<close> the number of names, below \<open>2^32\<close> as in every array: \<open>min(8, N)\<close> by default, \<open>N\<close> for \<open>Infinity\<close>,
  \<open>min(1, N)\<close> for \<open>-Infinity\<close>, exactly \<open>min(max(1, c0), N)\<close> for a whole number \<open>c0\<close>
  (one worker for zero and negative values), and for every \<open>c0\<close> that is a number at least
  one worker when there is a name and never more than there are names.
\<close>

theorem prefetch_worker_count:
  assumes "length studies < 2 ^ 32"
  shows "(concurrency opts = None \<longrightarrow>
           length (workers (prefetchStart st studies opts)) = min 8 (length studies))
    \<and> (\<forall>q. concurrency opts = Some (Num q) \<longrightarrow>
           length (workers (prefetchStart st studies opts)) =
             nat \<lfloor>min (max 1 q) (of_nat (length studies))\<rfloor>)
    \<and> (\<forall>z. concurrency opts = Some (Num (of_int z)) \<longrightarrow>
           int (length (workers (prefetchStart st studies opts))) =
             min (max 1 z) (int (length studies)))
    \<and> (concurrency opts = Some PosInfinity \<longrightarrow>
           length (workers (prefetchStart st studies opts)) = length studies)
    \<and> (concurrency opts = Some NegInfinity \<longrightarrow>
           length (workers (prefetchStart st studies opts)) = min 1 (length studies))
    \<and> (concurrency opts \<noteq> Some NaN \<longrightarrow>
           length (workers (prefetchStart st studies opts)) \<le> length studies
         \<and> (0 < length studies \<longrightarrow> 0 < length (workers (prefetchStart st studies opts))))"
proof -
  let ?N = "length studies"
  have len: "length (workers (prefetchStart st studies opts)) = workerCount opts ?N"
    by (simp add: prefetchStart_def spawn_length)
  have fl: "ToLength (Num r) = nat \<lfloor>r\<rfloor>" if "0 \<le> r" "r \<le> of_nat ?N" for r
    using that assms by (rule ToLength_floor)
  have a: "workerCount opts ?N = min 8 ?N" if "concurrency opts = None"
  proof -
    have "min (8::rat) (of_nat ?N) = of_nat (min 8 ?N)" by simp
    then have "nat \<lfloor>min (8::rat) (of_nat ?N)\<rfloor> = min 8 ?N" by simp
    with workerCount_cases(1)[OF that, of ?N] fl[of "min 8 (of_nat ?N)"] show ?thesis
      by (simp del: ToLength.simps)
  qed
  have b: "workerCount opts ?N = nat \<lfloor>min (max 1 q) (of_nat ?N)\<rfloor>"
    if "concurrency opts = Some (Num q)" for q
    using workerCount_cases(2)[OF that, of ?N] fl[of "min (max 1 q) (of_nat ?N)"]
    by (simp del: ToLength.simps)
  have c: "int (workerCount opts ?N) = min (max 1 z) (int ?N)"
    if "concurrency opts = Some (Num (of_int z))" for z
  proof -
    have "min (max 1 (of_int z)) (of_nat ?N) = (of_int (min (max 1 z) (int ?N)) :: rat)"
      by simp
    then have "\<lfloor>min (max 1 (of_int z)) (of_nat ?N) :: rat\<rfloor> = min (max 1 z) (int ?N)"
      by (simp only: floor_of_int)
    with b[OF that] show ?thesis by simp
  qed
  have d: "workerCount opts ?N = ?N" if "concurrency opts = Some PosInfinity"
    using workerCount_cases(3)[OF that, of ?N] fl[of "of_nat ?N"]
    by (simp del: ToLength.simps)
  have e: "workerCount opts ?N = min 1 ?N" if "concurrency opts = Some NegInfinity"
  proof -
    have "min (1::rat) (of_nat ?N) = of_nat (min 1 ?N)" by simp
    then have "nat \<lfloor>min (1::rat) (of_nat ?N)\<rfloor> = min 1 ?N" by simp
    with workerCount_cases(4)[OF that, of ?N] fl[of "min 1 (of_nat ?N)"] show ?thesis
      by (simp del: ToLength.simps)
  qed
  have f: "workerCount opts ?N \<le> ?N" if "concurrency opts \<noteq> Some NaN"
  proof (cases "concurrency opts")
    case None
    with a show ?thesis by simp
  next
    case (Some x)
    show ?thesis
    proof (cases x)
      case (Num q)
      have "\<lfloor>min (max 1 q) (of_nat ?N)\<rfloor> \<le> \<lfloor>(of_nat ?N :: rat)\<rfloor>"
        by (rule floor_mono) simp
      with b[of q] Some Num show ?thesis by simp
    next
      case NaN
      with Some that show ?thesis by simp
    next
      case PosInfinity
      with Some d show ?thesis by simp
    next
      case NegInfinity
      with Some e show ?thesis by simp
    qed
  qed
  have g: "0 < workerCount opts ?N" if "concurrency opts \<noteq> Some NaN" "0 < ?N"
    using that by (rule workerCount_positive)
  from a b c d e f g show ?thesis by (simp add: len)
qed

theorem prefetch_worker_count_witness:
  "length [''RSI'', ''MACD'', ''BADSTUDY''] < (2::nat) ^ 32
   \<and> length (workers (prefetchStart emptyState [''RSI'', ''MACD'', ''BADSTUDY'']
      \<lparr> concurrency = None, onProgress = None \<rparr>)) = 3
   \<and> int (length (workers (prefetchStart emptyState [''RSI'', ''MACD'', ''BADSTUDY'']
      \<lparr> concurrency = Some (Num (of_int (- 4))), onProgress = None \<rparr>))) = 1
   \<and> length (workers (prefetchStart emptyState [''RSI'', ''MACD'', ''BADSTUDY'']
      \<lparr> concurrency = Some (Num (5 / 2)), onProgress = None \<rparr>)) = 2
   \<and> length (workers (prefetchStart emptyState [''RSI'', ''MACD'', ''BADSTUDY'']
      \<lparr> concurrency = Some PosInfinity, onProgress = None \<rparr>)) = 3"
proof -
  let ?names = "[''RSI'', ''MACD'', ''BADSTUDY'']"
  have h: "length ?names < (2::nat) ^ 32" by simp
  note t = prefetch_worker_count[OF h, of _ emptyState]
  have a0: "concurrency \<lparr> concurrency = None, onProgress = None \<rparr> = None" by simp
  from t[of "\<lparr> concurrency = None, onProgress = None \<rparr>"] a0
  have "length (workers (prefetchStart emptyState ?names
      \<lparr> concurrency = None, onProgress = None \<rparr>)) = min 8 (length ?names)" by blast
  then have a: "length (workers (prefetchStart emptyState ?names
      \<lparr> concurrency = None, onProgress = None \<rparr>)) = 3" by simp
  have b0: "concurrency \<lparr> concurrency = Some (Num (of_int (- 4))), onProgress = None \<rparr> =
              Some (Num (of_int (- 4)))" by simp
  from t[of "\<lparr> concurrency = Some (Num (of_int (- 4))), onProgress = None \<rparr>"] b0
  have "int (length (workers (prefetchStart emptyState ?names
      \<lparr> concurrency = Some (Num (of_int (- 4))), onProgress = None \<rparr>))) =
        min (max 1 (- 4)) (int (length ?names))" by blast
  then have b: "int (length (workers (prefetchStart emptyState ?names
      \<lparr> concurrency = Some (Num (of_int (- 4))), onProgress = None \<rparr>))) = 1" by simp
  have c0: "concurrency \<lparr> concurrency = Some (Num (5 / 2)), onProgress = None \<rparr> =
              Some (Num (5 / 2))" by simp
  from t[of "\<lparr> concurrency = Some (Num (5 / 2)), onProgress = None \<rparr>"] c0
  have "length (workers (prefetchStart emptyState ?names
      \<lparr> concurrency = Some (Num (5 / 2)), onProgress = None \<rparr>)) =
        nat \<lfloor>min (max 1 (5 / 2)) (of_nat (length ?names)) :: rat\<rfloor>" by blast
  then have c: "length (workers (prefetchStart emptyState ?names
      \<lparr> concurrency = Some (Num (5 / 2)), onProgress = None \<rparr>)) = 2"
    by (simp add: floor_five_halves)
  have d0: "concurrency \<lparr> concurrency = Some PosInfinity, onProgress = None \<rparr> =
              Some PosInfinity" by simp
  from t[of "\<lparr> concurrency = Some PosInfinity, onProgress = None \<rparr>"] d0
  have d: "length (workers (prefetchStart emptyState ?names
      \<lparr> concurrency = Some PosInfinity, onProgress = None \<rparr>)) = 3" by simp
  from h a b c d show ?thesis by simp
qed

end
